theory Spec2Isabelle
  imports Complex_Main
begin

section \<open>Common: JavaScript errors\<close>

text \<open>
  A thrown JavaScript \<open>Error\<close> is a value carrying its message; a function that may
  throw returns \<open>js_error + 'a\<close>, with \<open>Inl\<close> for the exception.
\<close>

datatype js_error = Error string

section \<open>JavaScript numbers\<close>

text \<open>
  The code computes in IEEE double precision. A number is \<open>NaN\<close> or one of the other
  doubles, which \<open>'n\<close> stands for (the two infinities are among them); \<open>>=\<close> compares
  two numbers exactly, and is false when one of them is \<open>NaN\<close>.
\<close>

datatype 'n js_number = NaN | Num 'n

fun js_ge :: "'n::ord js_number \<Rightarrow> 'n js_number \<Rightarrow> bool" where
  "js_ge (Num x) (Num y) = (y \<le> x)"
| "js_ge x y = False"

text \<open>
  The operations that round are not modelled: they are taken as they are, as parameters,
  so that what is proved of the code holds whatever the rounding. \<open>js_zero\<close> is the literal
  \<open>0\<close>. \<open>js_json\<close> is what \<open>JSON.parse\<close> gives back of a number that \<open>JSON.stringify\<close>
  has written: the number itself when it is finite (a negative zero comes back as \<open>0\<close>),
  and \<open>null\<close> otherwise, which is \<open>0\<close> as a factor of a product, the only use the code
  makes of it.
\<close>

record 'n js_arith =
  js_zero :: "'n js_number"
  js_add :: "'n js_number \<Rightarrow> 'n js_number \<Rightarrow> 'n js_number"
  js_mul :: "'n js_number \<Rightarrow> 'n js_number \<Rightarrow> 'n js_number"
  js_div :: "'n js_number \<Rightarrow> 'n js_number \<Rightarrow> 'n js_number"
  js_sqrt :: "'n js_number \<Rightarrow> 'n js_number"
  js_json :: "'n js_number \<Rightarrow> 'n js_number"

section \<open>Semantic cache (lib/redis/semantic-cache.ts)\<close>

subsection \<open>Data\<close>

record 'n SemanticCacheEntry =
  query :: string
  embedding :: "'n js_number list"
  response :: string
  timestamp :: int

text \<open>
  The Redis hash \<open>semantic_cache:v1\<close>: its fields in the order \<open>HGETALL\<close> replies with
  them, and the instant (in milliseconds) at which the whole key expires, if a TTL is set.
  A field's value is the entry that \<open>JSON.parse\<close> makes of the string stored; every
  string was written by \<open>storeInSemanticCache\<close>. A field's name is an identifier of
  \<open>crypto.randomUUID()\<close>, never an array index, so that \<open>Object.values\<close> and
  \<open>Object.entries\<close> keep the order of the reply. Redis does not specify the order of the
  reply; the model keeps the fields in the order in which they were first written.
\<close>

record 'n redis_hash =
  hfields :: "(string \<times> 'n SemanticCacheEntry) list"
  expires_at :: "int option"

definition MAX_CACHE_ENTRIES :: nat where
  "MAX_CACHE_ENTRIES = 500"

text \<open>
  \<open>JSON.parse(JSON.stringify(entry))\<close>: the strings and the timestamp, an integer of
  \<open>Date.now()\<close>, come back as they were.
\<close>

definition json_roundtrip :: "'n js_arith \<Rightarrow> 'n SemanticCacheEntry \<Rightarrow> 'n SemanticCacheEntry" where
  "json_roundtrip ar entry = entry\<lparr>embedding := map (js_json ar) (embedding entry)\<rparr>"

subsection \<open>The five Redis commands the cache uses\<close>

datatype redis_op = HSET | EXPIRE | HLEN | HGETALL | HDEL

text \<open>
  Every command can fail (connection lost, retries exhausted); \<open>fails\<close> says which
  commands fail during one call of a cache function. A key whose TTL has run out is gone
  for every command; a hash without fields does not exist, so it has no TTL; \<open>EXPIRE\<close>
  with a timeout that is not positive deletes the key.
\<close>

definition redis_failure :: js_error where
  "redis_failure = Error ''redis command failed''"

definition expired :: "'n redis_hash \<Rightarrow> int \<Rightarrow> bool" where
  "expired h now = (case expires_at h of None \<Rightarrow> False | Some x \<Rightarrow> x \<le> now)"

definition empty_hash :: "'n redis_hash" where
  "empty_hash = \<lparr>hfields = [], expires_at = None\<rparr>"

definition live_hash :: "'n redis_hash \<Rightarrow> int \<Rightarrow> 'n redis_hash" where
  "live_hash h now = (if expired h now then empty_hash else h)"

fun upsert :: "'k \<Rightarrow> 'v \<Rightarrow> ('k \<times> 'v) list \<Rightarrow> ('k \<times> 'v) list" where
  "upsert k v [] = [(k, v)]"
| "upsert k v ((k', v') # kvs) =
     (if k' = k then (k, v) # kvs else (k', v') # upsert k v kvs)"

definition hset ::
  "(redis_op \<Rightarrow> bool) \<Rightarrow> 'n redis_hash \<Rightarrow> int \<Rightarrow> string \<Rightarrow> 'n SemanticCacheEntry
     \<Rightarrow> js_error + 'n redis_hash" where
  "hset fails h now k v =
     (if fails HSET then Inl redis_failure
      else let h' = live_hash h now in Inr (h'\<lparr>hfields := upsert k v (hfields h')\<rparr>))"

definition expire ::
  "(redis_op \<Rightarrow> bool) \<Rightarrow> 'n redis_hash \<Rightarrow> int \<Rightarrow> int \<Rightarrow> js_error + 'n redis_hash" where
  "expire fails h now ttlSeconds =
     (if fails EXPIRE then Inl redis_failure
      else let h' = live_hash h now in
        if hfields h' = [] then Inr h'
        else if ttlSeconds \<le> 0 then Inr empty_hash
        else Inr (h'\<lparr>expires_at := Some (now + 1000 * ttlSeconds)\<rparr>))"

definition hlen :: "(redis_op \<Rightarrow> bool) \<Rightarrow> 'n redis_hash \<Rightarrow> int \<Rightarrow> js_error + nat" where
  "hlen fails h now =
     (if fails HLEN then Inl redis_failure else Inr (length (hfields (live_hash h now))))"

definition hgetall ::
  "(redis_op \<Rightarrow> bool) \<Rightarrow> 'n redis_hash \<Rightarrow> int
     \<Rightarrow> js_error + (string \<times> 'n SemanticCacheEntry) list" where
  "hgetall fails h now =
     (if fails HGETALL then Inl redis_failure else Inr (hfields (live_hash h now)))"

definition hdel ::
  "(redis_op \<Rightarrow> bool) \<Rightarrow> 'n redis_hash \<Rightarrow> int \<Rightarrow> string list \<Rightarrow> js_error + 'n redis_hash" where
  "hdel fails h now ks =
     (if fails HDEL then Inl redis_failure
      else let h' = live_hash h now;
               rest = filter (\<lambda>kv. fst kv \<notin> set ks) (hfields h')
           in if rest = [] then Inr empty_hash else Inr (h'\<lparr>hfields := rest\<rparr>))"

subsection \<open>cosineSimilarity\<close>

text \<open>
  The loop runs over the indices of \<open>a\<close>, from three accumulators that start at \<open>0\<close>.
  Reading \<open>b[i]\<close> past the end of \<open>b\<close> gives \<open>undefined\<close>, which is \<open>NaN\<close> as a factor.
\<close>

fun cosine_loop ::
  "'n js_arith \<Rightarrow> 'n js_number list \<Rightarrow> 'n js_number list
     \<Rightarrow> 'n js_number \<times> 'n js_number \<times> 'n js_number
     \<Rightarrow> 'n js_number \<times> 'n js_number \<times> 'n js_number" where
  "cosine_loop ar [] b acc = acc"
| "cosine_loop ar (x # a) [] (dot, normA, normB) =
     cosine_loop ar a []
       (js_add ar dot (js_mul ar x NaN),
        js_add ar normA (js_mul ar x x),
        js_add ar normB (js_mul ar NaN NaN))"
| "cosine_loop ar (x # a) (y # b) (dot, normA, normB) =
     cosine_loop ar a b
       (js_add ar dot (js_mul ar x y),
        js_add ar normA (js_mul ar x x),
        js_add ar normB (js_mul ar y y))"

definition cosineSimilarity ::
  "'n js_arith \<Rightarrow> 'n js_number list \<Rightarrow> 'n js_number list \<Rightarrow> 'n js_number" where
  "cosineSimilarity ar a b =
     (case cosine_loop ar a b (js_zero ar, js_zero ar, js_zero ar) of
        (dot, normA, normB) \<Rightarrow>
          js_div ar dot (js_mul ar (js_sqrt ar normA) (js_sqrt ar normB)))"

subsection \<open>searchSemanticCache\<close>

text \<open>The \<open>for\<close> loop over the values of the reply.\<close>

fun scan_entries ::
  "'n::ord js_arith \<Rightarrow> 'n js_number list \<Rightarrow> 'n js_number \<Rightarrow> 'n SemanticCacheEntry list
     \<Rightarrow> string option" where
  "scan_entries ar queryEmbedding similarityThreshold [] = None"
| "scan_entries ar queryEmbedding similarityThreshold (entry # rest) =
     (let similarity = cosineSimilarity ar queryEmbedding (embedding entry) in
      if js_ge similarity similarityThreshold
      then Some (response entry)
      else scan_entries ar queryEmbedding similarityThreshold rest)"

text \<open>The body of the \<open>try\<close> block.\<close>

definition searchSemanticCache_try ::
  "'n::ord js_arith \<Rightarrow> (redis_op \<Rightarrow> bool) \<Rightarrow> 'n redis_hash \<Rightarrow> int \<Rightarrow> 'n js_number list
     \<Rightarrow> 'n js_number \<Rightarrow> js_error + string option" where
  "searchSemanticCache_try ar fails h now queryEmbedding similarityThreshold =
     (case hgetall fails h now of
        Inl err \<Rightarrow> Inl err
      | Inr entries \<Rightarrow>
          if length entries = 0 then Inr None
          else Inr (scan_entries ar queryEmbedding similarityThreshold (map snd entries)))"

text \<open>The \<open>catch\<close> block logs and returns \<open>null\<close>.\<close>

definition searchSemanticCache ::
  "'n::ord js_arith \<Rightarrow> (redis_op \<Rightarrow> bool) \<Rightarrow> 'n redis_hash \<Rightarrow> int \<Rightarrow> 'n js_number list
     \<Rightarrow> 'n js_number \<Rightarrow> js_error + string option" where
  "searchSemanticCache ar fails h now queryEmbedding similarityThreshold =
     (case searchSemanticCache_try ar fails h now queryEmbedding similarityThreshold of
        Inl err \<Rightarrow> Inr None
      | Inr r \<Rightarrow> Inr r)"

subsection \<open>storeInSemanticCache and evictOldestEntries\<close>

text \<open>\<open>xs.slice(0, count)\<close>: a negative end counts from the end of the array.\<close>

definition slice0 :: "'a list \<Rightarrow> int \<Rightarrow> 'a list" where
  "slice0 xs count =
     (if count < 0 then take (nat (int (length xs) + count)) xs else take (nat count) xs)"

text \<open>
  \<open>Array.prototype.sort\<close> is stable, and so is \<open>sort_key\<close>; the timestamps are the
  integers of \<open>Date.now()\<close>, whose differences are exact. A failing command throws out of
  the function, leaving the hash as the commands before it made it.
\<close>

definition evictOldestEntries ::
  "(redis_op \<Rightarrow> bool) \<Rightarrow> 'n redis_hash \<Rightarrow> int \<Rightarrow> int \<Rightarrow> (js_error + unit) \<times> 'n redis_hash" where
  "evictOldestEntries fails h now count =
     (case hgetall fails h now of
        Inl err \<Rightarrow> (Inl err, h)
      | Inr entries \<Rightarrow>
          let sorted = slice0 (sort_key snd (map (\<lambda>kv. (fst kv, timestamp (snd kv))) entries)) count
          in if length sorted > 0
             then (case hdel fails h now (map fst sorted) of
                     Inl err \<Rightarrow> (Inl err, h)
                   | Inr h' \<Rightarrow> (Inr (), h'))
             else (Inr (), h))"

text \<open>
  The body of the \<open>try\<close> block; \<open>uuid\<close> is the \<open>id\<close> that \<open>crypto.randomUUID()\<close>
  returned, \<open>sz\<close> is \<open>size\<close>, and \<open>now\<close> is the value of \<open>Date.now()\<close>. The hash is given
  the string \<open>JSON.stringify(entry)\<close>, and holds what a reader parses out of it.
\<close>

definition storeInSemanticCache_try ::
  "'n js_arith \<Rightarrow> (redis_op \<Rightarrow> bool) \<Rightarrow> 'n redis_hash \<Rightarrow> int \<Rightarrow> string \<Rightarrow> string
     \<Rightarrow> 'n js_number list \<Rightarrow> string \<Rightarrow> int \<Rightarrow> (js_error + unit) \<times> 'n redis_hash" where
  "storeInSemanticCache_try ar fails h now uuid q e r ttlSeconds =
     (let entry = \<lparr>query = q, embedding = e, response = r, timestamp = now\<rparr> in
      case hset fails h now uuid (json_roundtrip ar entry) of
        Inl err \<Rightarrow> (Inl err, h)
      | Inr h1 \<Rightarrow>
          (case expire fails h1 now ttlSeconds of
             Inl err \<Rightarrow> (Inl err, h1)
           | Inr h2 \<Rightarrow>
               (case hlen fails h2 now of
                  Inl err \<Rightarrow> (Inl err, h2)
                | Inr sz \<Rightarrow>
                    if sz > MAX_CACHE_ENTRIES
                    then evictOldestEntries fails h2 now (int sz - int MAX_CACHE_ENTRIES)
                    else (Inr (), h2))))"

definition storeInSemanticCache ::
  "'n js_arith \<Rightarrow> (redis_op \<Rightarrow> bool) \<Rightarrow> 'n redis_hash \<Rightarrow> int \<Rightarrow> string \<Rightarrow> string
     \<Rightarrow> 'n js_number list \<Rightarrow> string \<Rightarrow> int \<Rightarrow> (js_error + unit) \<times> 'n redis_hash" where
  "storeInSemanticCache ar fails h now uuid q e r ttlSeconds =
     (case storeInSemanticCache_try ar fails h now uuid q e r ttlSeconds of
        (Inl err, h') \<Rightarrow> (Inr (), h')
      | (Inr u, h') \<Rightarrow> (Inr u, h'))"

subsection \<open>generateEmbedding (lib/openai/client.ts) and cacheQueryResponse\<close>

text \<open>
  \<open>openai\<close> is the provider call \<open>openai.embeddings.create\<close>, returning the embeddings of
  \<open>response.data\<close>. Reading \<open>data[0].embedding\<close> of an empty \<open>data\<close> throws inside the
  \<open>try\<close>; every failure is rethrown with a fixed message.
\<close>

definition generateEmbedding ::
  "(string \<Rightarrow> js_error + 'x list list) \<Rightarrow> string \<Rightarrow> js_error + 'x list" where
  "generateEmbedding openai text =
     (case openai text of
        Inl err \<Rightarrow> Inl (Error ''Failed to generate embedding'')
      | Inr [] \<Rightarrow> Inl (Error ''Failed to generate embedding'')
      | Inr (v # vs) \<Rightarrow> Inr v)"

definition cacheQueryResponse_try ::
  "'n js_arith \<Rightarrow> (string \<Rightarrow> js_error + 'n js_number list list) \<Rightarrow> (redis_op \<Rightarrow> bool)
     \<Rightarrow> 'n redis_hash \<Rightarrow> int \<Rightarrow> string \<Rightarrow> string \<Rightarrow> string
     \<Rightarrow> (js_error + unit) \<times> 'n redis_hash" where
  "cacheQueryResponse_try ar openai fails h now uuid q r =
     (case generateEmbedding openai q of
        Inl err \<Rightarrow> (Inl err, h)
      | Inr queryEmbedding \<Rightarrow> storeInSemanticCache ar fails h now uuid q queryEmbedding r 3600)"

definition cacheQueryResponse ::
  "'n js_arith \<Rightarrow> (string \<Rightarrow> js_error + 'n js_number list list) \<Rightarrow> (redis_op \<Rightarrow> bool)
     \<Rightarrow> 'n redis_hash \<Rightarrow> int \<Rightarrow> string \<Rightarrow> string \<Rightarrow> string
     \<Rightarrow> (js_error + unit) \<times> 'n redis_hash" where
  "cacheQueryResponse ar openai fails h now uuid q r =
     (case cacheQueryResponse_try ar openai fails h now uuid q r of
        (Inl err, h') \<Rightarrow> (Inr (), h')
      | (Inr u, h') \<Rightarrow> (Inr u, h'))"

section \<open>Vector store (lib/supabase/client.ts, supabase/schema.sql)\<close>

subsection \<open>Data\<close>

datatype json = JString string | JNumber nat

text \<open>
  A row of the table \<open>documents\<close>. The columns \<open>embedding\<close> and \<open>source_hash\<close> are
  nullable. The columns \<open>id\<close>, \<open>created_at\<close> and \<open>updated_at\<close> are filled in by the
  database and decide nothing below; they are left out.
\<close>

record document_row =
  row_content :: string
  row_embedding :: "real list option"
  row_metadata :: "(string \<times> json) list"
  row_source_hash :: "string option"

text \<open>
  A record of the search result. The similarity is a \<open>float\<close> of PostgreSQL, which has a
  \<open>NaN\<close>, here \<open>None\<close>. The row's \<open>id\<close> is left out with the column.
\<close>

record SearchResult =
  result_content :: string
  result_metadata :: "(string \<times> json) list"
  result_similarity :: "real option"

text \<open>The \<open>{content, similarity}\<close> objects that the orchestrator renders.\<close>

record RelevantDoc =
  content :: string
  similarity :: real

subsection \<open>Decimal numerals\<close>

definition digit_char :: "nat \<Rightarrow> char" where
  "digit_char d = ''0123456789'' ! d"

function show_nat :: "nat \<Rightarrow> string" where
  "show_nat n = (if n < 10 then [digit_char n] else show_nat (n div 10) @ [digit_char (n mod 10)])"
  by pat_completeness auto
termination
  by (relation "measure (\<lambda>n. n)") auto

subsection \<open>match_documents (supabase/schema.sql)\<close>

text \<open>
  What the function takes from the database and its pgvector extension, as parameters:
  the cosine distance operator \<open><=>\<close>, whose result is a \<open>float\<close> or \<open>NaN\<close> (\<open>None\<close>; pgvector
  answers a zero vector with \<open>NaN\<close>), and the subtraction \<open>1 - x\<close> of \<open>float\<close>, which rounds.
\<close>

record pg_numeric =
  cosine_distance :: "real list \<Rightarrow> real list \<Rightarrow> real option"
  one_minus :: "real \<Rightarrow> real"

text \<open>The column and the parameter \<open>query_embedding\<close> have the type \<open>vector(1536)\<close>.\<close>

definition embedding_dimension :: nat where
  "embedding_dimension = 1536"

text \<open>\<open>1 - (d.embedding <=> query_embedding)\<close>, where \<open>1 - NaN\<close> is \<open>NaN\<close>.\<close>

definition similarity_of :: "pg_numeric \<Rightarrow> real list \<Rightarrow> real list \<Rightarrow> real option" where
  "similarity_of pg e query_embedding =
     map_option (one_minus pg) (cosine_distance pg e query_embedding)"

text \<open>
  The \<open>WHERE\<close> clause. A row whose embedding is \<open>NULL\<close> makes the condition \<open>NULL\<close> and is
  dropped. PostgreSQL orders \<open>NaN\<close> above every number, so \<open>NaN >= match_threshold\<close> holds.
\<close>

definition where_clause :: "pg_numeric \<Rightarrow> real list \<Rightarrow> real \<Rightarrow> document_row \<Rightarrow> bool" where
  "where_clause pg query_embedding match_threshold d =
     (case row_embedding d of
        None \<Rightarrow> False
      | Some e \<Rightarrow>
          (case similarity_of pg e query_embedding of
             None \<Rightarrow> True
           | Some s \<Rightarrow> s \<ge> match_threshold))"

text \<open>
  The \<open>ORDER BY\<close> key of a row that passed the \<open>WHERE\<close> clause, and the \<open>SELECT\<close> list.
\<close>

definition order_key :: "pg_numeric \<Rightarrow> real list \<Rightarrow> document_row \<Rightarrow> real option" where
  "order_key pg query_embedding d =
     (case row_embedding d of
        None \<Rightarrow> None
      | Some e \<Rightarrow> cosine_distance pg e query_embedding)"

definition select_row :: "pg_numeric \<Rightarrow> real list \<Rightarrow> document_row \<Rightarrow> SearchResult" where
  "select_row pg query_embedding d =
     \<lparr>result_content = row_content d, result_metadata = row_metadata d,
      result_similarity =
        (case row_embedding d of
           None \<Rightarrow> None
         | Some e \<Rightarrow> similarity_of pg e query_embedding)\<rparr>"

text \<open>
  \<open>ORDER BY\<close> is ascending, with \<open>NaN\<close> after every number; rows of equal distance come
  in an order the database does not specify, here the table's.
\<close>

definition order_by :: "pg_numeric \<Rightarrow> real list \<Rightarrow> document_row list \<Rightarrow> document_row list" where
  "order_by pg query_embedding rows =
     map snd
       (sort_key fst
          (List.map_filter
             (\<lambda>d. case order_key pg query_embedding d of
                     None \<Rightarrow> None
                   | Some x \<Rightarrow> Some (x, d))
             rows))
     @ filter (\<lambda>d. order_key pg query_embedding d = None) rows"

text \<open>
  A query vector that has not 1536 components is refused at the call; \<open><=>\<close> raises an
  error on vectors of different dimensions (the column's type keeps such rows out of the
  table); a negative \<open>LIMIT\<close> is an error. The model is the meaning of the query, the
  result of a scan of the whole table: the index on the column, from which the database
  may answer with fewer rows, is not modelled. This is the function of
  \<open>supabase/schema.sql\<close>.
  The repository holds a second copy of the schema whose \<open>match_documents\<close> has no \<open>WHERE\<close>
  clause and selects the comparison with the threshold in place of the similarity; every
  call of that copy is an error of the database, and it is not modelled.
\<close>

definition match_documents ::
  "pg_numeric \<Rightarrow> document_row list \<Rightarrow> real list \<Rightarrow> real \<Rightarrow> int
     \<Rightarrow> js_error + SearchResult list" where
  "match_documents pg documents query_embedding match_threshold match_count =
     (if length query_embedding \<noteq> embedding_dimension
      then Inl (Error ''expected 1536 dimensions'')
      else if list_ex (\<lambda>d. case row_embedding d of
                              None \<Rightarrow> False
                            | Some e \<Rightarrow> length e \<noteq> length query_embedding) documents
      then Inl (Error ''different vector dimensions'')
      else if match_count < 0 then Inl (Error ''LIMIT must not be negative'')
      else Inr (map (select_row pg query_embedding)
                 (take (nat match_count)
                   (order_by pg query_embedding
                     (filter (where_clause pg query_embedding match_threshold) documents)))))"

subsection \<open>searchSimilarDocuments, checkDocumentExists, insertDocument\<close>

text \<open>
  \<open>rpc_fails\<close>, \<open>select_fails\<close> and \<open>insert_fails\<close> say whether the store answers a
  request with an error; the message of the store's error is not modelled.
\<close>

definition searchSimilarDocuments ::
  "bool \<Rightarrow> pg_numeric \<Rightarrow> document_row list \<Rightarrow> real list \<Rightarrow> real \<Rightarrow> int
     \<Rightarrow> js_error + SearchResult list" where
  "searchSimilarDocuments rpc_fails pg documents queryEmbedding matchThreshold matchCount =
     (if rpc_fails then Inl (Error ''Failed to search documents'')
      else case match_documents pg documents queryEmbedding matchThreshold matchCount of
             Inl err \<Rightarrow> Inl (Error ''Failed to search documents'')
           | Inr data \<Rightarrow> Inr data)"

definition checkDocumentExists :: "bool \<Rightarrow> document_row list \<Rightarrow> string \<Rightarrow> bool" where
  "checkDocumentExists select_fails documents hash =
     (if select_fails then False
      else length (take 1 (filter (\<lambda>d. row_source_hash d = Some hash) documents)) > 0)"

text \<open>A number under \<open>source_hash\<close> reaches the text column as its decimal numeral.\<close>

definition metadata_source_hash :: "(string \<times> json) list \<Rightarrow> string option" where
  "metadata_source_hash md =
     (case map_of md ''source_hash'' of
        None \<Rightarrow> None
      | Some (JString s) \<Rightarrow> Some s
      | Some (JNumber n) \<Rightarrow> Some (show_nat n))"

definition insertDocument ::
  "bool \<Rightarrow> document_row list \<Rightarrow> string \<Rightarrow> real list option \<Rightarrow> (string \<times> json) list
     \<Rightarrow> js_error + document_row list" where
  "insertDocument insert_fails documents c e md =
     (if insert_fails then Inl (Error ''Failed to insert document'')
      else Inr (documents @
             [\<lparr>row_content = c, row_embedding = e, row_metadata = md,
               row_source_hash = metadata_source_hash md\<rparr>]))"

section \<open>Ingestion (lib/rag/pdf-processor.ts)\<close>

text \<open>
  What \<open>processText\<close> calls outside this repository: the SHA-256 digest in hexadecimal,
  \<open>String.prototype.trim\<close>, the text splitter of \<open>chunkText\<close> (chunk size 500, overlap 50),
  the embedding provider's batch call, and the store, which may answer the existence
  query or the insert of the chunk of a given index with an error.
\<close>

record ingest_env =
  sha256_hex :: "string \<Rightarrow> string"
  trim :: "string \<Rightarrow> string"
  splitText :: "string \<Rightarrow> string list"
  openai_batch :: "string list \<Rightarrow> js_error + real list list"
  select_fails :: bool
  insert_fails :: "nat \<Rightarrow> bool"

text \<open>The calls \<open>processText\<close> makes, in the order it makes them.\<close>

datatype call = ExistsQuery string | ChunkText string | BatchEmbed "string list" | InsertRow nat

record process_result =
  success :: bool
  chunksProcessed :: nat

definition generateBatchEmbeddings ::
  "(string list \<Rightarrow> js_error + real list list) \<Rightarrow> string list \<Rightarrow> js_error + real list list" where
  "generateBatchEmbeddings openai texts =
     (case openai texts of
        Inl err \<Rightarrow> Inl (Error ''Failed to generate batch embeddings'')
      | Inr vs \<Rightarrow> Inr vs)"

text \<open>
  \<open>chunks.map\<close> starts the insert of every chunk; \<open>embeddings[index]\<close> past the end is
  \<open>undefined\<close>, stored as \<open>NULL\<close>. \<open>Promise.all\<close> rejects when one of them fails, and the
  other rows are stored all the same. The result is the table, the first error if any,
  and the calls made.
\<close>

fun insert_chunks ::
  "ingest_env \<Rightarrow> (string \<times> json) list \<Rightarrow> string \<Rightarrow> nat \<Rightarrow> real list list \<Rightarrow> document_row list
     \<Rightarrow> nat \<Rightarrow> string list \<Rightarrow> document_row list \<times> js_error option \<times> call list" where
  "insert_chunks env md source_hash totalChunks embeddings documents index [] = (documents, None, [])"
| "insert_chunks env md source_hash totalChunks embeddings documents index (chunk # chunks) =
     (let md' = upsert ''totalChunks'' (JNumber totalChunks)
                 (upsert ''chunkIndex'' (JNumber index)
                   (upsert ''source_hash'' (JString source_hash) md));
          e = (if index < length embeddings then Some (embeddings ! index) else None)
      in case insertDocument (insert_fails env index) documents chunk e md' of
           Inl err \<Rightarrow>
             (case insert_chunks env md source_hash totalChunks embeddings documents (Suc index) chunks of
                (documents', _, calls) \<Rightarrow> (documents', Some err, InsertRow index # calls))
         | Inr documents1 \<Rightarrow>
             (case insert_chunks env md source_hash totalChunks embeddings documents1 (Suc index) chunks of
                (documents', err, calls) \<Rightarrow> (documents', err, InsertRow index # calls)))"

definition processText ::
  "ingest_env \<Rightarrow> document_row list \<Rightarrow> string \<Rightarrow> (string \<times> json) list
     \<Rightarrow> (js_error + process_result) \<times> document_row list \<times> call list" where
  "processText env documents text md =
     (if text = [] \<or> length (trim env text) = 0
      then (Inl (Error ''No text to process''), documents, [])
      else
        let source_hash = sha256_hex env text;
            exists = checkDocumentExists (select_fails env) documents source_hash
        in if exists
           then (Inl (Error ''DUPLICATE_DOCUMENT''), documents, [ExistsQuery source_hash])
           else
             let chunks = splitText env text in
             case generateBatchEmbeddings (openai_batch env) chunks of
               Inl err \<Rightarrow>
                 (Inl err, documents, [ExistsQuery source_hash, ChunkText text, BatchEmbed chunks])
             | Inr embeddings \<Rightarrow>
                 (case insert_chunks env md source_hash (length chunks) embeddings documents 0 chunks of
                    (documents', failure, calls) \<Rightarrow>
                      (case failure of
                         Some err \<Rightarrow> Inl err
                       | None \<Rightarrow> Inr \<lparr>success = True, chunksProcessed = length chunks\<rparr>,
                       documents',
                       [ExistsQuery source_hash, ChunkText text, BatchEmbed chunks] @ calls)))"

section \<open>Retrieval orchestrator (lib/rag/orchestrator.ts)\<close>

subsection \<open>buildContextString\<close>

definition no_information :: string where
  "no_information = ''No relevant information found in the knowledge base.''"

definition separator :: string where
  "separator = [CHR 0x0A, CHR 0x0A] @ ''---'' @ [CHR 0x0A, CHR 0x0A]"

text \<open>
  \<open>toFixed1\<close> is \<open>Number.prototype.toFixed\<close> at one digit, of JavaScript's own. The
  template literal of one document, \<open>index\<close> counting from 0:
\<close>

definition render_doc :: "(real \<Rightarrow> string) \<Rightarrow> nat \<Rightarrow> RelevantDoc \<Rightarrow> string" where
  "render_doc toFixed1 index doc =
     ''[Document '' @ show_nat (index + 1) @ ''] (Relevance: ''
       @ toFixed1 (similarity doc * 100) @ ''%)'' @ [CHR 0x0A] @ content doc"

text \<open>\<open>docs.map((doc, index) => ...)\<close>, from the index \<open>index\<close> on.\<close>

fun map_index :: "(nat \<Rightarrow> 'a \<Rightarrow> 'b) \<Rightarrow> nat \<Rightarrow> 'a list \<Rightarrow> 'b list" where
  "map_index f index [] = []"
| "map_index f index (x # xs) = f index x # map_index f (Suc index) xs"

text \<open>\<open>Array.prototype.join\<close> on strings.\<close>

fun join :: "string \<Rightarrow> string list \<Rightarrow> string" where
  "join sep [] = []"
| "join sep [x] = x"
| "join sep (x # y # ys) = x @ sep @ join sep (y # ys)"

definition buildContextString :: "(real \<Rightarrow> string) \<Rightarrow> RelevantDoc list \<Rightarrow> string" where
  "buildContextString toFixed1 docs =
     (if length docs = 0 then no_information
      else join separator (map_index (render_doc toFixed1) 0 docs))"

section \<open>Rate limiters (lib/rate-limit)\<close>

subsection \<open>MemoryRateLimiter (memory.ts)\<close>

record limit_record =
  count :: int
  resetTime :: int

text \<open>
  \<open>now\<close> is the value of \<open>Date.now()\<close>; the map is returned as the call leaves it.
  \<open>maxRequests\<close> is taken to be an integer.
\<close>

definition MemoryRateLimiter_check ::
  "int \<Rightarrow> int \<Rightarrow> (string \<rightharpoonup> limit_record) \<Rightarrow> int \<Rightarrow> string
     \<Rightarrow> bool \<times> (string \<rightharpoonup> limit_record)" where
  "MemoryRateLimiter_check maxRequests windowMs limitMap now key =
     (case limitMap key of
        None \<Rightarrow> (True, limitMap(key \<mapsto> \<lparr>count = 1, resetTime = now + windowMs\<rparr>))
      | Some record \<Rightarrow>
          if now > resetTime record
          then (True, limitMap(key \<mapsto> \<lparr>count = 1, resetTime = now + windowMs\<rparr>))
          else if count record \<ge> maxRequests then (False, limitMap)
          else (True, limitMap(key \<mapsto> record\<lparr>count := count record + 1\<rparr>)))"

definition MemoryRateLimiter_cleanup ::
  "(string \<rightharpoonup> limit_record) \<Rightarrow> int \<Rightarrow> (string \<rightharpoonup> limit_record)" where
  "MemoryRateLimiter_cleanup limitMap now =
     (\<lambda>key. case limitMap key of
               None \<Rightarrow> None
             | Some record \<Rightarrow> if now > resetTime record then None else Some record)"

subsection \<open>RedisRateLimiter (redis.ts)\<close>

text \<open>
  A Redis string key holding a counter, with the instant (in milliseconds) at which it
  expires, if a TTL is set. \<open>INCR\<close> of a key that is absent or has expired creates it with
  the value 1 and no TTL; \<open>EXPIRE\<close> sets the TTL of a key that exists, and deletes the
  key when the timeout is not positive. Failures of the connection are not modelled for
  the rate limiter.
\<close>

record redis_counter =
  cvalue :: int
  cexpiry :: "int option"

definition counter_live :: "redis_counter \<Rightarrow> int \<Rightarrow> bool" where
  "counter_live c now = (case cexpiry c of None \<Rightarrow> True | Some x \<Rightarrow> now < x)"

definition incr ::
  "(string \<rightharpoonup> redis_counter) \<Rightarrow> int \<Rightarrow> string \<Rightarrow> int \<times> (string \<rightharpoonup> redis_counter)" where
  "incr store now k =
     (case store k of
        None \<Rightarrow> (1, store(k \<mapsto> \<lparr>cvalue = 1, cexpiry = None\<rparr>))
      | Some c \<Rightarrow>
          if counter_live c now
          then (cvalue c + 1, store(k \<mapsto> c\<lparr>cvalue := cvalue c + 1\<rparr>))
          else (1, store(k \<mapsto> \<lparr>cvalue = 1, cexpiry = None\<rparr>)))"

definition expire_counter ::
  "(string \<rightharpoonup> redis_counter) \<Rightarrow> int \<Rightarrow> string \<Rightarrow> int \<Rightarrow> (string \<rightharpoonup> redis_counter)" where
  "expire_counter store now k seconds =
     (case store k of
        None \<Rightarrow> store
      | Some c \<Rightarrow>
          if counter_live c now \<and> 0 < seconds
          then store(k \<mapsto> c\<lparr>cexpiry := Some (now + 1000 * seconds)\<rparr>)
          else store(k := None))"

definition RedisRateLimiter_check ::
  "string \<Rightarrow> int \<Rightarrow> int \<Rightarrow> (string \<rightharpoonup> redis_counter) \<Rightarrow> int \<Rightarrow> string
     \<Rightarrow> bool \<times> (string \<rightharpoonup> redis_counter)" where
  "RedisRateLimiter_check keyPrefix maxRequests windowSec store now key =
     (let redisKey = keyPrefix @ '':'' @ key in
      case incr store now redisKey of
        (n, store1) \<Rightarrow>
          (n \<le> maxRequests,
           if n = 1 then expire_counter store1 now redisKey windowSec else store1))"

subsection \<open>Consecutive calls by one caller\<close>

text \<open>The results of calling \<open>check(key)\<close> at the instants of a list, one after the other.\<close>

fun memory_checks ::
  "int \<Rightarrow> int \<Rightarrow> (string \<rightharpoonup> limit_record) \<Rightarrow> string \<Rightarrow> int list
     \<Rightarrow> bool list \<times> (string \<rightharpoonup> limit_record)" where
  "memory_checks maxRequests windowMs limitMap key [] = ([], limitMap)"
| "memory_checks maxRequests windowMs limitMap key (now # later) =
     (case MemoryRateLimiter_check maxRequests windowMs limitMap now key of
        (allowed, limitMap1) \<Rightarrow>
          (case memory_checks maxRequests windowMs limitMap1 key later of
             (rest, limitMap2) \<Rightarrow> (allowed # rest, limitMap2)))"

fun redis_checks ::
  "string \<Rightarrow> int \<Rightarrow> int \<Rightarrow> (string \<rightharpoonup> redis_counter) \<Rightarrow> string \<Rightarrow> int list
     \<Rightarrow> bool list \<times> (string \<rightharpoonup> redis_counter)" where
  "redis_checks keyPrefix maxRequests windowSec store key [] = ([], store)"
| "redis_checks keyPrefix maxRequests windowSec store key (now # later) =
     (case RedisRateLimiter_check keyPrefix maxRequests windowSec store now key of
        (allowed, store1) \<Rightarrow>
          (case redis_checks keyPrefix maxRequests windowSec store1 key later of
             (rest, store2) \<Rightarrow> (allowed # rest, store2)))"

section \<open>Auxiliary notions for the cache\<close>

subsection \<open>Cosine similarity, as a formula\<close>

text \<open>
  The components of \<open>b\<close> that go with those of \<open>a\<close>: \<open>b[0]\<close> to \<open>b[a.length - 1]\<close>, with
  \<open>NaN\<close> where \<open>b\<close> has none.
\<close>

fun aligned :: "'a list \<Rightarrow> 'n js_number list \<Rightarrow> 'n js_number list" where
  "aligned [] b = []"
| "aligned (x # a) [] = NaN # aligned a []"
| "aligned (x # a) (y # b) = y # aligned a b"

text \<open>
  The dot product, summed from the left in the arithmetic given, and the cosine
  similarity: the dot product of the two vectors over the product of their norms.
\<close>

definition dot_product ::
  "'n js_arith \<Rightarrow> 'n js_number list \<Rightarrow> 'n js_number list \<Rightarrow> 'n js_number" where
  "dot_product ar a b =
     foldl (js_add ar) (js_zero ar) (map (\<lambda>p. js_mul ar (fst p) (snd p)) (zip a b))"

definition norm_of :: "'n js_arith \<Rightarrow> 'n js_number list \<Rightarrow> 'n js_number" where
  "norm_of ar a = js_sqrt ar (dot_product ar a a)"

definition cosine ::
  "'n js_arith \<Rightarrow> 'n js_number list \<Rightarrow> 'n js_number list \<Rightarrow> 'n js_number" where
  "cosine ar a b =
     js_div ar (dot_product ar a (aligned a b))
       (js_mul ar (norm_of ar a) (norm_of ar (aligned a b)))"

subsection \<open>The state of the hash\<close>

text \<open>The fields of a Redis hash have distinct names.\<close>

definition wf_hash :: "'n redis_hash \<Rightarrow> bool" where
  "wf_hash h = distinct (map fst (hfields h))"

text \<open>The entries a reader finds at the instant \<open>now\<close>.\<close>

definition live_entries :: "'n redis_hash \<Rightarrow> int \<Rightarrow> (string \<times> 'n SemanticCacheEntry) list" where
  "live_entries h now = hfields (live_hash h now)"

text \<open>
  One call of \<open>storeInSemanticCache\<close>: the commands that fail during it, the values of
  \<open>Date.now()\<close> and of \<open>crypto.randomUUID()\<close>, and the four arguments.
\<close>

record 'n store_call =
  call_fails :: "redis_op \<Rightarrow> bool"
  call_now :: int
  call_uuid :: string
  call_query :: string
  call_embedding :: "'n js_number list"
  call_response :: string
  call_ttl :: int

definition store_step :: "'n js_arith \<Rightarrow> 'n redis_hash \<Rightarrow> 'n store_call \<Rightarrow> 'n redis_hash" where
  "store_step ar h c =
     snd (storeInSemanticCache ar (call_fails c) h (call_now c) (call_uuid c) (call_query c)
            (call_embedding c) (call_response c) (call_ttl c))"

text \<open>The states of the hash after each call of a sequence, one after the other.\<close>

fun store_run ::
  "'n js_arith \<Rightarrow> 'n redis_hash \<Rightarrow> 'n store_call list \<Rightarrow> 'n redis_hash list" where
  "store_run ar h [] = []"
| "store_run ar h (c # cs) = store_step ar h c # store_run ar (store_step ar h c) cs"

text \<open>Three patterns of failure: none, the deletion, the read of the hash.\<close>

definition no_faults :: "redis_op \<Rightarrow> bool" where
  "no_faults op = False"

definition hdel_fails :: "redis_op \<Rightarrow> bool" where
  "hdel_fails op = (op = HDEL)"

definition hgetall_fails :: "redis_op \<Rightarrow> bool" where
  "hgetall_fails op = (op = HGETALL)"

text \<open>
  The pairs of field name and timestamp that \<open>evictOldestEntries\<close> sorts, and the names of
  the \<open>c\<close> oldest entries, which it deletes.
\<close>

definition stamps :: "(string \<times> 'n SemanticCacheEntry) list \<Rightarrow> (string \<times> int) list" where
  "stamps es = map (\<lambda>kv. (fst kv, timestamp (snd kv))) es"

definition oldest_keys :: "nat \<Rightarrow> (string \<times> 'n SemanticCacheEntry) list \<Rightarrow> string list" where
  "oldest_keys c es = map fst (take c (sort_key snd (stamps es)))"

text \<open>The entry a call leaves in the hash, and the live entries with it written.\<close>

definition new_entry :: "'n js_arith \<Rightarrow> 'n store_call \<Rightarrow> 'n SemanticCacheEntry" where
  "new_entry ar c =
     json_roundtrip ar
       \<lparr>query = call_query c, embedding = call_embedding c, response = call_response c,
        timestamp = call_now c\<rparr>"

definition inserted ::
  "'n js_arith \<Rightarrow> 'n redis_hash \<Rightarrow> 'n store_call \<Rightarrow> (string \<times> 'n SemanticCacheEntry) list" where
  "inserted ar h c = upsert (call_uuid c) (new_entry ar c) (live_entries h (call_now c))"

text \<open>
  The hash as the \<open>HSET\<close> and the \<open>EXPIRE\<close> of a call leave it when they succeed, before
  the size is read.
\<close>

definition after_insert :: "'n js_arith \<Rightarrow> 'n redis_hash \<Rightarrow> 'n store_call \<Rightarrow> 'n redis_hash" where
  "after_insert ar h c =
     (case hset no_faults h (call_now c) (call_uuid c) (new_entry ar c) of
        Inl err \<Rightarrow> h
      | Inr h1 \<Rightarrow>
          (case expire no_faults h1 (call_now c) (call_ttl c) of
             Inl err \<Rightarrow> h1
           | Inr h2 \<Rightarrow> h2))"

section \<open>Example inputs\<close>

text \<open>
  A store holding one chunk of the text \<open>Agents use tools\<close>, whose digest is written
  \<open>H\<close>, and an environment in which the splitter returns the text as one chunk, the
  provider answers every chunk with an embedding, and the store answers every request.
\<close>

definition example_text :: string where
  "example_text = ''Agents use tools''"

definition stored_row :: document_row where
  "stored_row =
     \<lparr>row_content = ''Agents use tools'', row_embedding = Some [1, 0],
      row_metadata = [(''source_hash'', JString ''H'')], row_source_hash = Some ''H''\<rparr>"

definition healthy_env :: ingest_env where
  "healthy_env =
     \<lparr>sha256_hex = (\<lambda>text. if text = ''Agents use tools'' then ''H'' else ''G''),
      trim = (\<lambda>text. filter (\<lambda>c. c \<noteq> CHR '' '') text),
      splitText = (\<lambda>text. [text]),
      openai_batch = (\<lambda>texts. Inr (map (\<lambda>text. [1, 0]) texts)),
      select_fails = False,
      insert_fails = (\<lambda>index. False)\<rparr>"

text \<open>The same environment, with a store that answers the existence query with an error.\<close>

definition failing_select_env :: ingest_env where
  "failing_select_env = healthy_env\<lparr>select_fails := True\<rparr>"

text \<open>A row carrying the digest of a text of two spaces.\<close>

definition blank_hash_row :: document_row where
  "blank_hash_row =
     \<lparr>row_content = ''x'', row_embedding = None, row_metadata = [],
      row_source_hash = Some ''G''\<rparr>"

text \<open>A limiter that has seen no caller, and a Redis without counters.\<close>

definition fresh_limitMap :: "string \<rightharpoonup> limit_record" where
  "fresh_limitMap = Map.empty"

definition fresh_store :: "string \<rightharpoonup> redis_counter" where
  "fresh_store = Map.empty"

text \<open>
  The vector of 1536 components that is \<open>(a, b)\<close> in the plane of the first two. A
  stand-in for the database's arithmetic: the cosine distance as pgvector computes it,
  one minus the dot product over the root of the product of the squared norms, and
  \<open>1 - x\<close>, both in the real numbers, with \<open>NaN\<close> for \<open>0 / 0\<close>. On the vectors of the
  examples, whose components are 0, 1 and -1, no operation rounds.
\<close>

definition vec2 :: "real \<Rightarrow> real \<Rightarrow> real list" where
  "vec2 a b = [a, b] @ replicate 1534 0"

definition exact_distance :: "real list \<Rightarrow> real list \<Rightarrow> real option" where
  "exact_distance a b =
     (let dot = (\<Sum>p\<leftarrow>zip a b. fst p * snd p);
          norma = (\<Sum>x\<leftarrow>a. x * x);
          normb = (\<Sum>y\<leftarrow>b. y * y)
      in if norma * normb = 0 then None else Some (1 - dot / sqrt (norma * normb)))"

definition exact_pg :: pg_numeric where
  "exact_pg = \<lparr>cosine_distance = exact_distance, one_minus = (\<lambda>x. 1 - x)\<rparr>"

text \<open>
  A row whose embedding is the zero vector, and a table of four rows: three unit vectors
  and a row without embedding.
\<close>

definition zero_row :: document_row where
  "zero_row =
     \<lparr>row_content = ''zero'', row_embedding = Some (vec2 0 0), row_metadata = [],
      row_source_hash = None\<rparr>"

definition example_documents :: "document_row list" where
  "example_documents =
     [\<lparr>row_content = ''far'', row_embedding = Some (vec2 0 1), row_metadata = [],
       row_source_hash = None\<rparr>,
      \<lparr>row_content = ''opposite'', row_embedding = Some (vec2 (- 1) 0), row_metadata = [],
       row_source_hash = None\<rparr>,
      \<lparr>row_content = ''no embedding'', row_embedding = None, row_metadata = [],
       row_source_hash = None\<rparr>,
      \<lparr>row_content = ''same'', row_embedding = Some (vec2 1 0), row_metadata = [],
       row_source_hash = None\<rparr>]"

text \<open>
  An arithmetic for the examples of the cache: the operations of the real numbers, with
  \<open>NaN\<close> for \<open>0 / 0\<close>, for the root of a negative number and for every operation on
  \<open>NaN\<close>. On the vectors of the examples, whose components are 0, 1 and 2, no operation
  of the code rounds, so that the doubles it computes are these numbers. A number other
  than 0 over 0, an infinity in JavaScript, does not occur in the examples.
\<close>

fun exact_add :: "real js_number \<Rightarrow> real js_number \<Rightarrow> real js_number" where
  "exact_add (Num x) (Num y) = Num (x + y)"
| "exact_add x y = NaN"

fun exact_mul :: "real js_number \<Rightarrow> real js_number \<Rightarrow> real js_number" where
  "exact_mul (Num x) (Num y) = Num (x * y)"
| "exact_mul x y = NaN"

fun exact_div :: "real js_number \<Rightarrow> real js_number \<Rightarrow> real js_number" where
  "exact_div (Num x) (Num y) = (if y = 0 then NaN else Num (x / y))"
| "exact_div x y = NaN"

fun exact_sqrt :: "real js_number \<Rightarrow> real js_number" where
  "exact_sqrt (Num x) = (if x < 0 then NaN else Num (sqrt x))"
| "exact_sqrt NaN = NaN"

fun exact_json :: "real js_number \<Rightarrow> real js_number" where
  "exact_json (Num x) = Num x"
| "exact_json NaN = Num 0"

definition exact_arith :: "real js_arith" where
  "exact_arith =
     \<lparr>js_zero = Num 0, js_add = exact_add, js_mul = exact_mul, js_div = exact_div,
      js_sqrt = exact_sqrt, js_json = exact_json\<rparr>"

text \<open>
  A cache of three entries, whose similarities to the query \<open>(1, 0, 0, 0)\<close> are \<open>1 / 2\<close>,
  \<open>1\<close> and \<open>1\<close>.
\<close>

definition three_entry_cache :: "real redis_hash" where
  "three_entry_cache =
     \<lparr>hfields =
        [(''a'', \<lparr>query = ''q1'', embedding = [Num 1, Num 1, Num 1, Num 1], response = ''r1'',
                 timestamp = 1\<rparr>),
         (''b'', \<lparr>query = ''q2'', embedding = [Num 2, Num 0, Num 0, Num 0], response = ''r2'',
                 timestamp = 2\<rparr>),
         (''c'', \<lparr>query = ''q3'', embedding = [Num 1, Num 0, Num 0, Num 0], response = ''r3'',
                 timestamp = 3\<rparr>)],
      expires_at = Some 10\<rparr>"

text \<open>
  A cache holding 500 entries with the timestamps 0 to 499, a cache holding one entry, and
  a call that stores a response under a new identifier at the instant 1000.
\<close>

definition full_cache :: "real redis_hash" where
  "full_cache =
     \<lparr>hfields =
        map (\<lambda>i. (replicate i (CHR ''a''),
                  \<lparr>query = ''q'', embedding = [Num 0, Num 1], response = ''old'',
                   timestamp = int i\<rparr>))
          [0..<500],
      expires_at = None\<rparr>"

definition example_call :: "real store_call" where
  "example_call =
     \<lparr>call_fails = no_faults, call_now = 1000, call_uuid = ''new'',
      call_query = ''weather in Paris'', call_embedding = [Num 1, Num 0],
      call_response = ''sunny'', call_ttl = 3600\<rparr>"

definition one_entry_cache :: "real redis_hash" where
  "one_entry_cache =
     \<lparr>hfields =
        [(''a'', \<lparr>query = ''q'', embedding = [Num 1, Num 0], response = ''old'',
                 timestamp = 1\<rparr>)],
      expires_at = None\<rparr>"

text \<open>The same call made when the clock has gone back before every stored timestamp.\<close>

definition early_call :: "real store_call" where
  "early_call = example_call\<lparr>call_now := - 1\<rparr>"

section \<open>Properties of the semantic cache\<close>

subsection \<open>Cosine similarity\<close>

text \<open>
  The loop computes the dot product of \<open>a\<close> with the components of \<open>b\<close> that go with
  it, and the two dot products that are the squares of the norms.
\<close>

lemma cosine_loop_folds:
  "cosine_loop ar a b (d, na, nb) =
     (foldl (js_add ar) d (map (\<lambda>p. js_mul ar (fst p) (snd p)) (zip a (aligned a b))),
      foldl (js_add ar) na (map (\<lambda>p. js_mul ar (fst p) (snd p)) (zip a a)),
      foldl (js_add ar) nb
        (map (\<lambda>p. js_mul ar (fst p) (snd p)) (zip (aligned a b) (aligned a b))))"
  by (induction ar a b "(d, na, nb)" arbitrary: d na nb rule: cosine_loop.induct) simp_all

lemma aligned_idem: "aligned (aligned a b) (aligned a b) = aligned a b"
  by (induction a b rule: aligned.induct) simp_all

text \<open>\<open>cosineSimilarity\<close> is the cosine similarity, in the arithmetic of the code.\<close>

lemma cosineSimilarity_cosine: "cosineSimilarity ar a b = cosine ar a b"
  by (simp add: cosineSimilarity_def cosine_def norm_of_def dot_product_def cosine_loop_folds)

subsection \<open>Lookup\<close>

lemma js_ge_cases:
  "js_ge v t = (case (v, t) of (Num s, Num x) \<Rightarrow> x \<le> s | _ \<Rightarrow> False)"
  by (cases v; cases t) simp_all

lemma scan_entries_find:
  "scan_entries ar q t es =
     map_option response (find (\<lambda>entry. js_ge (cosine ar q (embedding entry)) t) es)"
  by (induction es) (simp_all add: cosineSimilarity_cosine)

lemma searchSemanticCache_find:
  assumes "\<not> fails HGETALL"
  shows "searchSemanticCache ar fails h now q t =
           Inr (map_option response
                  (find (\<lambda>entry. js_ge (cosine ar q (embedding entry)) t)
                     (map snd (live_entries h now))))"
  using assms
  by (cases "hfields (live_hash h now)")
     (simp_all add: searchSemanticCache_def searchSemanticCache_try_def hgetall_def
        live_entries_def scan_entries_find del: scan_entries.simps)

text \<open>
  Claim C3, as amended. When the read of the hash succeeds, \<open>searchSemanticCache\<close> goes
  through the live entries in the order of the reply and returns the response of the first
  entry for which the cosine similarity of the query embedding and the entry's embedding,
  in the arithmetic of the code, is a number greater than or equal to the threshold, itself
  a number; when there is no such entry, it returns \<open>null\<close>. A similarity or a threshold
  that is \<open>NaN\<close> meets nothing.
\<close>

theorem searchSemanticCache_first_match:
  assumes "\<not> fails HGETALL"
  shows "searchSemanticCache ar fails h now q t =
           Inr (map_option response
                  (find (\<lambda>entry. case (cosine ar q (embedding entry), t) of
                                   (Num s, Num x) \<Rightarrow> x \<le> s
                                 | _ \<Rightarrow> False)
                     (map snd (live_entries h now))))"
  using assms searchSemanticCache_find [of fails ar h now q t]
  by (simp add: js_ge_cases)

theorem searchSemanticCache_first_match_witness:
  "\<not> no_faults HGETALL \<and>
   searchSemanticCache exact_arith no_faults three_entry_cache 5
     [Num 1, Num 0, Num 0, Num 0] (Num (3 / 4)) = Inr (Some ''r2'') \<and>
   cosine exact_arith [Num 1, Num 0, Num 0, Num 0] [Num 1, Num 1, Num 1, Num 1] = Num (1 / 2) \<and>
   cosine exact_arith [Num 1, Num 0, Num 0, Num 0] [Num 2, Num 0, Num 0, Num 0] = Num 1"
  using searchSemanticCache_first_match [of no_faults exact_arith three_entry_cache 5
     "[Num 1, Num 0, Num 0, Num 0]" "Num (3 / 4)"]
  by (simp add: no_faults_def three_entry_cache_def live_entries_def live_hash_def expired_def
        cosine_def norm_of_def dot_product_def exact_arith_def)

text \<open>
  The claim as stated, without the condition on the read, fails when \<open>HGETALL\<close> fails:
  the lookup returns \<open>null\<close> although the one live entry has the similarity 1 to the
  query.
\<close>

theorem searchSemanticCache_first_match_counterexample:
  "searchSemanticCache exact_arith hgetall_fails one_entry_cache 5 [Num 1, Num 0] (Num (3 / 4))
     = Inr None \<and>
   map snd (live_entries one_entry_cache 5)
     = [\<lparr>query = ''q'', embedding = [Num 1, Num 0], response = ''old'', timestamp = 1\<rparr>] \<and>
   cosineSimilarity exact_arith [Num 1, Num 0] [Num 1, Num 0] = Num 1 \<and>
   js_ge (Num (1::real)) (Num (3 / 4))"
  by (simp add: searchSemanticCache_def searchSemanticCache_try_def hgetall_def
        hgetall_fails_def one_entry_cache_def live_entries_def live_hash_def expired_def
        cosineSimilarity_def exact_arith_def)

subsection \<open>Failures of the backing store\<close>

lemma storeInSemanticCache_returns:
  "fst (storeInSemanticCache ar fails h now uuid q e r ttl) = Inr ()"
  by (simp add: storeInSemanticCache_def split: prod.splits sum.splits)

text \<open>
  Claim C5. A lookup whose read of the hash fails returns \<open>null\<close>, and no lookup
  raises; \<open>storeInSemanticCache\<close> and \<open>cacheQueryResponse\<close> return normally whichever Redis
  commands fail and whatever the embedding provider answers.
\<close>

theorem cache_failures_swallowed:
  "(fails HGETALL \<longrightarrow> searchSemanticCache ar fails h now qe t = Inr None)
   \<and> (\<exists>res. searchSemanticCache ar fails h now qe t = Inr res)
   \<and> fst (storeInSemanticCache ar fails h now uuid q e r ttl) = Inr ()
   \<and> fst (cacheQueryResponse ar openai fails h now uuid q r) = Inr ()"
proof -
  have a: "fails HGETALL \<longrightarrow> searchSemanticCache ar fails h now qe t = Inr None"
    by (simp add: searchSemanticCache_def searchSemanticCache_try_def hgetall_def)
  have b: "\<exists>res. searchSemanticCache ar fails h now qe t = Inr res"
    by (simp add: searchSemanticCache_def split: sum.splits)
  have c: "fst (cacheQueryResponse ar openai fails h now uuid q r) = Inr ()"
    by (simp add: cacheQueryResponse_def split: prod.splits sum.splits)
  from a b c storeInSemanticCache_returns show ?thesis by blast
qed

theorem cache_failures_swallowed_witness:
  "(\<lambda>op. True) HGETALL
   \<and> searchSemanticCache exact_arith (\<lambda>op. True) empty_hash 0 [Num 1] (Num 0) = Inr None
   \<and> fst (storeInSemanticCache exact_arith (\<lambda>op. op = HSET) empty_hash 0 ''id'' ''q'' [Num 1]
            ''r'' 3600) = Inr ()
   \<and> fst (cacheQueryResponse exact_arith (\<lambda>text. Inl (Error ''timeout'')) (\<lambda>op. False)
            empty_hash 0 ''id'' ''q'' ''r'') = Inr ()"
  using cache_failures_swallowed [of "\<lambda>op. True" exact_arith empty_hash 0 "[Num 1]" "Num 0"]
    cache_failures_swallowed [of "\<lambda>op. op = HSET" exact_arith empty_hash 0 "[Num 1]" "Num 0"
       "''id''" "''q''" "[Num 1]" "''r''" 3600]
    cache_failures_swallowed [of "\<lambda>op. False" exact_arith empty_hash 0 "[Num 1]" "Num 0"
       "''id''" "''q''" "[Num 1]" "''r''" 3600 "\<lambda>text. Inl (Error ''timeout'')"]
  by simp

section \<open>Properties of the orchestrator\<close>

lemma map_index_snoc: "map_index f k (xs @ [x]) = map_index f k xs @ [f (k + length xs) x]"
  by (induction xs arbitrary: k) auto

lemma join_snoc: "xs \<noteq> [] \<Longrightarrow> join sep (xs @ [x]) = join sep xs @ sep @ x"
  by (induction sep xs rule: join.induct) auto

lemma map_index_Nil_iff: "map_index f k xs = [] \<longleftrightarrow> xs = []"
  by (cases xs) auto

text \<open>
  Claim C9. \<open>buildContextString\<close> of the empty list is the fixed sentence
  \<open>no_information\<close>, which is not the empty string. Of a non-empty list it is the
  documents' renderings in the list's order, with the separator between them: one document
  gives its rendering, and a further document adds the separator and its rendering at the
  end. A rendering carries the document's number, its similarity times 100 formatted by
  \<open>toFixed(1)\<close> and followed by the percent sign, and its content.
\<close>

theorem buildContextString_rendering:
  "buildContextString toFixed1 [] = no_information
   \<and> no_information \<noteq> []
   \<and> buildContextString toFixed1 [d] = render_doc toFixed1 0 d
   \<and> (docs \<noteq> [] \<longrightarrow>
        buildContextString toFixed1 (docs @ [d]) =
          buildContextString toFixed1 docs @ separator @ render_doc toFixed1 (length docs) d)
   \<and> render_doc toFixed1 i d =
        ''[Document '' @ show_nat (i + 1) @ ''] (Relevance: ''
          @ toFixed1 (similarity d * 100) @ ''%)'' @ [CHR 0x0A] @ content d"
proof -
  have "docs \<noteq> [] \<longrightarrow>
        buildContextString toFixed1 (docs @ [d]) =
          buildContextString toFixed1 docs @ separator @ render_doc toFixed1 (length docs) d"
    by (simp add: buildContextString_def map_index_snoc join_snoc map_index_Nil_iff)
  then show ?thesis
    by (simp add: buildContextString_def no_information_def render_doc_def)
qed

theorem buildContextString_rendering_witness:
  "[\<lparr>content = ''Agents use tools'', similarity = 19 / 20\<rparr>] \<noteq> []
   \<and> buildContextString (\<lambda>x. if x = 95 then ''95.0'' else ''70.0'')
       ([\<lparr>content = ''Agents use tools'', similarity = 19 / 20\<rparr>]
          @ [\<lparr>content = ''Tools'', similarity = 7 / 10\<rparr>]) =
     ''[Document 1] (Relevance: 95.0%)'' @ [CHR 0x0A] @ ''Agents use tools''
       @ [CHR 0x0A, CHR 0x0A] @ ''---'' @ [CHR 0x0A, CHR 0x0A]
       @ ''[Document 2] (Relevance: 70.0%)'' @ [CHR 0x0A] @ ''Tools''"
  using buildContextString_rendering [of "\<lambda>x. if x = 95 then ''95.0'' else ''70.0''"
      "\<lparr>content = ''Tools'', similarity = 7 / 10\<rparr>"
      "[\<lparr>content = ''Agents use tools'', similarity = 19 / 20\<rparr>]" 1]
    buildContextString_rendering [of "\<lambda>x. if x = 95 then ''95.0'' else ''70.0''"
      "\<lparr>content = ''Agents use tools'', similarity = 19 / 20\<rparr>" "[]" 0]
  by (simp add: separator_def digit_char_def)

section \<open>Properties of ingestion\<close>

lemma map_of_upsert: "map_of (upsert k v kvs) = (map_of kvs)(k \<mapsto> v)"
  by (induction kvs) auto

lemma chunk_metadata_source_hash:
  "metadata_source_hash
     (upsert ''totalChunks'' a (upsert ''chunkIndex'' b (upsert ''source_hash'' (JString h) md)))
   = Some h"
  by (simp add: metadata_source_hash_def map_of_upsert)

lemma insert_chunks_grows:
  "set documents \<subseteq> set (fst (insert_chunks env md h n embs documents i chunks))"
proof (induction chunks arbitrary: documents i)
  case Nil
  then show ?case by simp
next
  case (Cons c cs)
  show ?case
  proof (cases "insert_fails env i")
    case True
    then show ?thesis
      using Cons.IH[of documents "Suc i"]
      by (auto simp add: insertDocument_def Let_def split: prod.splits)
  next
    case False
    let ?row = "\<lparr>row_content = c,
      row_embedding = (if i < length embs then Some (embs ! i) else None),
      row_metadata = upsert ''totalChunks'' (JNumber n)
                 (upsert ''chunkIndex'' (JNumber i) (upsert ''source_hash'' (JString h) md)),
      row_source_hash = Some h\<rparr>"
    have "fst (insert_chunks env md h n embs documents i (c # cs))
            = fst (insert_chunks env md h n embs (documents @ [?row]) (Suc i) cs)"
      using False
      by (simp add: insertDocument_def Let_def chunk_metadata_source_hash split: prod.splits)
    then show ?thesis
      using Cons.IH[of "documents @ [?row]" "Suc i"] by simp
  qed
qed

lemma insert_chunks_no_failure:
  assumes "\<forall>i. \<not> insert_fails env i"
  shows "\<exists>rows calls. insert_chunks env md h n embs documents i chunks
            = (documents @ rows, None, calls)
          \<and> length rows = length chunks
          \<and> (\<forall>row\<in>set rows. row_source_hash row = Some h)"
proof (induction chunks arbitrary: documents i)
  case Nil
  then show ?case by simp
next
  case (Cons c cs)
  let ?row = "\<lparr>row_content = c,
      row_embedding = (if i < length embs then Some (embs ! i) else None),
      row_metadata = upsert ''totalChunks'' (JNumber n)
                 (upsert ''chunkIndex'' (JNumber i) (upsert ''source_hash'' (JString h) md)),
      row_source_hash = Some h\<rparr>"
  obtain rows calls where
    r: "insert_chunks env md h n embs (documents @ [?row]) (Suc i) cs
          = ((documents @ [?row]) @ rows, None, calls)"
       "length rows = length cs" "\<forall>row\<in>set rows. row_source_hash row = Some h"
    using Cons.IH[of "documents @ [?row]" "Suc i"] by blast
  have "insert_chunks env md h n embs documents i (c # cs)
          = (documents @ (?row # rows), None, InsertRow i # calls)"
    using assms r(1) by (simp add: insertDocument_def Let_def chunk_metadata_source_hash)
  moreover have "length (?row # rows) = length (c # cs)" using r(2) by simp
  moreover have "\<forall>row\<in>set (?row # rows). row_source_hash row = Some h" using r(3) by simp
  ultimately show ?case by blast
qed

lemma insert_chunks_success_stores_hash:
  assumes "insert_chunks env md h n embs documents i chunks = (documents', None, calls)"
    and "chunks \<noteq> []"
  shows "\<exists>d\<in>set documents'. row_source_hash d = Some h"
proof -
  obtain c cs where chunks: "chunks = c # cs" using assms(2) by (cases chunks) auto
  let ?row = "\<lparr>row_content = c,
      row_embedding = (if i < length embs then Some (embs ! i) else None),
      row_metadata = upsert ''totalChunks'' (JNumber n)
                 (upsert ''chunkIndex'' (JNumber i) (upsert ''source_hash'' (JString h) md)),
      row_source_hash = Some h\<rparr>"
  have nf: "\<not> insert_fails env i"
    using assms(1) unfolding chunks
    by (auto simp add: insertDocument_def Let_def split: prod.splits if_splits)
  then have "documents' = fst (insert_chunks env md h n embs (documents @ [?row]) (Suc i) cs)"
    using assms(1) unfolding chunks
    by (auto simp add: insertDocument_def Let_def chunk_metadata_source_hash split: prod.splits)
  then have "?row \<in> set documents'"
    using insert_chunks_grows[of "documents @ [?row]" env md h n embs "Suc i" cs] by auto
  then show ?thesis by force
qed

lemma checkDocumentExists_iff:
  "checkDocumentExists sf documents h
     \<longleftrightarrow> \<not> sf \<and> (\<exists>d\<in>set documents. row_source_hash d = Some h)"
  by (cases "filter (\<lambda>d. row_source_hash d = Some h) documents")
     (auto simp add: checkDocumentExists_def filter_empty_conv dest: filter_eq_ConsD)

lemma processText_duplicate:
  assumes "text \<noteq> []" "length (trim env text) \<noteq> 0" "\<not> select_fails env"
    and "\<exists>d\<in>set documents. row_source_hash d = Some (sha256_hex env text)"
  shows "processText env documents text md =
           (Inl (Error ''DUPLICATE_DOCUMENT''), documents, [ExistsQuery (sha256_hex env text)])"
  using assms by (simp add: processText_def checkDocumentExists_iff Let_def)

text \<open>
  Claim C10. When the store answers the existence query with an error,
  \<open>checkDocumentExists\<close> returns \<open>false\<close> for every hash, present or not, and
  \<open>processText\<close> of a non-blank text goes on to chunk, embed and insert: with a provider
  and inserts that succeed it reports success and adds one row per chunk, each with the
  text's digest, whatever the store already held.
\<close>

theorem checkDocumentExists_fails_open:
  assumes "select_fails env" "text \<noteq> []" "length (trim env text) \<noteq> 0"
    and "openai_batch env (splitText env text) = Inr embs"
    and "\<forall>i. \<not> insert_fails env i"
  shows "checkDocumentExists (select_fails env) documents hash = False
     \<and> (\<exists>rows calls.
          processText env documents text md =
            (Inr \<lparr>success = True, chunksProcessed = length (splitText env text)\<rparr>,
             documents @ rows, calls)
          \<and> length rows = length (splitText env text)
          \<and> (\<forall>row\<in>set rows. row_source_hash row = Some (sha256_hex env text)))"
proof -
  obtain rows calls where
    r: "insert_chunks env md (sha256_hex env text) (length (splitText env text)) embs documents 0
          (splitText env text) = (documents @ rows, None, calls)"
       "length rows = length (splitText env text)"
       "\<forall>row\<in>set rows. row_source_hash row = Some (sha256_hex env text)"
    using insert_chunks_no_failure[OF assms(5)] by blast
  have "processText env documents text md =
            (Inr \<lparr>success = True, chunksProcessed = length (splitText env text)\<rparr>,
             documents @ rows,
             [ExistsQuery (sha256_hex env text), ChunkText text, BatchEmbed (splitText env text)]
               @ calls)"
    using assms(1-4) r(1)
    by (simp add: processText_def checkDocumentExists_def generateBatchEmbeddings_def Let_def)
  with r(2,3) assms(1) show ?thesis
    by (simp add: checkDocumentExists_def)
qed

theorem checkDocumentExists_fails_open_witness:
  "select_fails failing_select_env
   \<and> row_source_hash stored_row = Some (sha256_hex failing_select_env example_text)
   \<and> checkDocumentExists (select_fails failing_select_env) [stored_row]
        (sha256_hex failing_select_env example_text) = False
   \<and> fst (processText failing_select_env [stored_row] example_text [])
       = Inr \<lparr>success = True, chunksProcessed = 1\<rparr>"
  using checkDocumentExists_fails_open [of failing_select_env example_text "[[1, 0]]"
     "[stored_row]" "sha256_hex failing_select_env example_text" "[]"]
  by (auto simp add: failing_select_env_def healthy_env_def example_text_def stored_row_def)


lemma processText_twice:
  assumes first: "processText env0 documents0 text md0 = (Inr res, documents1, calls)"
    and chunks: "splitText env0 text \<noteq> []"
    and env: "\<not> select_fails env" "sha256_hex env = sha256_hex env0" "trim env = trim env0"
  shows "processText env documents1 text md =
           (Inl (Error ''DUPLICATE_DOCUMENT''), documents1, [ExistsQuery (sha256_hex env text)])"
proof -
  have nb: "text \<noteq> []" "length (trim env0 text) \<noteq> 0"
    using first by (auto simp add: processText_def split: if_splits)
  obtain embs where embs: "generateBatchEmbeddings (openai_batch env0) (splitText env0 text) = Inr embs"
    using first nb
    by (auto simp add: processText_def Let_def split: if_splits sum.splits)
  obtain cs where ins:
    "insert_chunks env0 md0 (sha256_hex env0 text) (length (splitText env0 text)) embs documents0 0
       (splitText env0 text) = (documents1, None, cs)"
    using first nb embs
    by (auto simp add: processText_def Let_def split: if_splits prod.splits option.splits)
  have "\<exists>d\<in>set documents1. row_source_hash d = Some (sha256_hex env0 text)"
    using insert_chunks_success_stores_hash[OF ins chunks] .
  then show ?thesis
    using processText_duplicate[of "text" env documents1 md] nb env by simp
qed

text \<open>
  Claim C6, as amended. For a text that is not blank and whose digest a row of the store
  carries, when the store answers the existence query, \<open>processText\<close> fails with
  \<open>DUPLICATE_DOCUMENT\<close>, leaves the store as it was, and has made the existence query and
  nothing else: no chunking, no embedding, no insert. In particular, once \<open>processText\<close>
  has succeeded on a text that the splitter cuts into at least one chunk, \<open>processText\<close> of
  the same text on the resulting store fails in this way.
\<close>

theorem processText_rejects_duplicate:
  "(text \<noteq> [] \<and> length (trim env text) \<noteq> 0 \<and> \<not> select_fails env
      \<and> (\<exists>d\<in>set documents. row_source_hash d = Some (sha256_hex env text))
    \<longrightarrow> processText env documents text md =
          (Inl (Error ''DUPLICATE_DOCUMENT''), documents, [ExistsQuery (sha256_hex env text)]))
   \<and> (processText env0 documents0 text md0 = (Inr res, documents1, calls)
      \<and> splitText env0 text \<noteq> []
      \<and> \<not> select_fails env \<and> sha256_hex env = sha256_hex env0 \<and> trim env = trim env0
    \<longrightarrow> processText env documents1 text md =
          (Inl (Error ''DUPLICATE_DOCUMENT''), documents1, [ExistsQuery (sha256_hex env text)]))"
  using processText_duplicate[of "text" env documents md]
    processText_twice[of env0 documents0 "text" md0 res documents1 calls env md]
  by blast

theorem processText_rejects_duplicate_witness:
  "example_text \<noteq> [] \<and> length (trim healthy_env example_text) \<noteq> 0
   \<and> \<not> select_fails healthy_env
   \<and> row_source_hash stored_row = Some (sha256_hex healthy_env example_text)
   \<and> processText healthy_env [stored_row] example_text [] =
        (Inl (Error ''DUPLICATE_DOCUMENT''), [stored_row], [ExistsQuery ''H''])
   \<and> fst (processText healthy_env [] example_text []) =
        Inr \<lparr>success = True, chunksProcessed = 1\<rparr>
   \<and> processText healthy_env (fst (snd (processText healthy_env [] example_text [])))
        example_text [] =
        (Inl (Error ''DUPLICATE_DOCUMENT''),
         fst (snd (processText healthy_env [] example_text [])), [ExistsQuery ''H''])"
proof -
  let ?p = "processText healthy_env [] example_text []"
  have f1: "fst ?p = Inr \<lparr>success = True, chunksProcessed = 1\<rparr>"
    by (simp add: processText_def healthy_env_def example_text_def checkDocumentExists_def
          generateBatchEmbeddings_def insertDocument_def Let_def)
  have first: "?p = (Inr \<lparr>success = True, chunksProcessed = 1\<rparr>, fst (snd ?p), snd (snd ?p))"
    using f1 by (metis prod.collapse)
  have h: "sha256_hex healthy_env example_text = ''H''"
    by (simp add: healthy_env_def example_text_def)
  have pre: "example_text \<noteq> []" "length (trim healthy_env example_text) \<noteq> 0"
      "\<not> select_fails healthy_env"
      "row_source_hash stored_row = Some (sha256_hex healthy_env example_text)"
      "splitText healthy_env example_text \<noteq> []"
    by (simp_all add: healthy_env_def example_text_def stored_row_def)
  note T = processText_rejects_duplicate [of example_text healthy_env "[stored_row]" "[]"
        healthy_env "[]" "[]" "\<lparr>success = True, chunksProcessed = 1\<rparr>"
        "fst (snd ?p)" "snd (snd ?p)"]
  have a: "processText healthy_env [stored_row] example_text [] =
        (Inl (Error ''DUPLICATE_DOCUMENT''), [stored_row],
         [ExistsQuery (sha256_hex healthy_env example_text)])"
    using T pre by simp
  have b: "processText healthy_env (fst (snd ?p)) example_text [] =
        (Inl (Error ''DUPLICATE_DOCUMENT''), fst (snd ?p),
         [ExistsQuery (sha256_hex healthy_env example_text)])"
    using T first pre by blast
  show ?thesis
    using a b f1 pre unfolding h by simp
qed

text \<open>
  The claim as stated, for every content whose digest is in the store, fails when the
  store answers the existence query with an error: the text is ingested again.
\<close>

theorem processText_duplicate_counterexample:
  "row_source_hash stored_row = Some (sha256_hex failing_select_env example_text)
   \<and> fst (processText failing_select_env [stored_row] example_text [])
       = Inr \<lparr>success = True, chunksProcessed = 1\<rparr>
   \<and> fst (processText failing_select_env [stored_row] example_text [])
       \<noteq> Inl (Error ''DUPLICATE_DOCUMENT'')
   \<and> BatchEmbed [example_text]
       \<in> set (snd (snd (processText failing_select_env [stored_row] example_text [])))"
  by (simp add: processText_def failing_select_env_def healthy_env_def example_text_def
        stored_row_def checkDocumentExists_def generateBatchEmbeddings_def insertDocument_def
        Let_def)

text \<open>A blank text is refused before the existence query, whatever the store holds.\<close>

lemma processText_blank_text_first:
  "row_source_hash blank_hash_row = Some (sha256_hex healthy_env ''  '')
   \<and> processText healthy_env [blank_hash_row] ''  '' [] =
       (Inl (Error ''No text to process''), [blank_hash_row], [])"
  by (simp add: processText_def healthy_env_def blank_hash_row_def)

section \<open>Properties of the rate limiters\<close>

lemma memory_checks_Cons:
  "memory_checks m w limitMap key (t # ts) =
     (fst (MemoryRateLimiter_check m w limitMap t key)
        # fst (memory_checks m w (snd (MemoryRateLimiter_check m w limitMap t key)) key ts),
      snd (memory_checks m w (snd (MemoryRateLimiter_check m w limitMap t key)) key ts))"
  by (simp split: prod.splits)

lemma redis_checks_Cons:
  "redis_checks p m w store key (t # ts) =
     (fst (RedisRateLimiter_check p m w store t key)
        # fst (redis_checks p m w (snd (RedisRateLimiter_check p m w store t key)) key ts),
      snd (redis_checks p m w (snd (RedisRateLimiter_check p m w store t key)) key ts))"
  by (simp split: prod.splits)

lemma memory_checks_in_window:
  assumes "limitMap key = Some \<lparr>count = c, resetTime = R\<rparr>"
    and "\<forall>t\<in>set ts. t \<le> R"
  shows "fst (memory_checks m w limitMap key ts) = map (\<lambda>i. c + int i < m) [0..<length ts]
       \<and> (\<exists>c'. snd (memory_checks m w limitMap key ts) key = Some \<lparr>count = c', resetTime = R\<rparr>)"
  using assms
proof (induction ts arbitrary: limitMap c)
  case Nil
  then show ?case by simp
next
  case (Cons t ts)
  show ?case
  proof (cases "c < m")
    case True
    let ?lm = "limitMap(key \<mapsto> \<lparr>count = c + 1, resetTime = R\<rparr>)"
    have step: "MemoryRateLimiter_check m w limitMap t key = (True, ?lm)"
      using Cons.prems True by (simp add: MemoryRateLimiter_check_def)
    have ih: "fst (memory_checks m w ?lm key ts) = map (\<lambda>i. (c + 1) + int i < m) [0..<length ts]
       \<and> (\<exists>c'. snd (memory_checks m w ?lm key ts) key = Some \<lparr>count = c', resetTime = R\<rparr>)"
    proof (rule Cons.IH)
      show "?lm key = Some \<lparr>count = c + 1, resetTime = R\<rparr>" by simp
      show "\<forall>t\<in>set ts. t \<le> R" using Cons.prems by simp
    qed
    have "map (\<lambda>i. c + int i < m) [0..<Suc (length ts)]
            = True # map (\<lambda>i. (c + 1) + int i < m) [0..<length ts]"
      using True by (simp add: map_upt_Suc add.commute add.left_commute del: upt_Suc)
    with step ih show ?thesis
      by (simp add: memory_checks_Cons del: memory_checks.simps upt_Suc)
  next
    case False
    have step: "MemoryRateLimiter_check m w limitMap t key = (False, limitMap)"
      using Cons.prems False by (simp add: MemoryRateLimiter_check_def)
    have ih: "fst (memory_checks m w limitMap key ts) = map (\<lambda>i. c + int i < m) [0..<length ts]
       \<and> (\<exists>c'. snd (memory_checks m w limitMap key ts) key = Some \<lparr>count = c', resetTime = R\<rparr>)"
    proof (rule Cons.IH)
      show "limitMap key = Some \<lparr>count = c, resetTime = R\<rparr>" using Cons.prems by simp
      show "\<forall>t\<in>set ts. t \<le> R" using Cons.prems by simp
    qed
    have "map (\<lambda>i. c + int i < m) [0..<Suc (length ts)]
            = False # map (\<lambda>i. c + int i < m) [0..<length ts]"
      using False by (simp add: map_upt_Suc del: upt_Suc)
    with step ih show ?thesis
      by (simp add: memory_checks_Cons del: memory_checks.simps upt_Suc)
  qed
qed

lemma redis_checks_in_window:
  assumes "store (p @ '':'' @ key) = Some \<lparr>cvalue = v, cexpiry = Some E\<rparr>"
    and "\<forall>t\<in>set ts. t < E" and "1 \<le> v"
  shows "fst (redis_checks p m w store key ts) = map (\<lambda>i. v + int i < m) [0..<length ts]
       \<and> snd (redis_checks p m w store key ts) (p @ '':'' @ key)
           = Some \<lparr>cvalue = v + int (length ts), cexpiry = Some E\<rparr>"
  using assms
proof (induction ts arbitrary: store v)
  case Nil
  then show ?case by simp
next
  case (Cons t ts)
  let ?k = "p @ '':'' @ key"
  let ?st = "store(?k \<mapsto> \<lparr>cvalue = v + 1, cexpiry = Some E\<rparr>)"
  have step: "RedisRateLimiter_check p m w store t key = (v + 1 \<le> m, ?st)"
    using Cons.prems
    by (simp add: RedisRateLimiter_check_def incr_def counter_live_def Let_def)
  have ih: "fst (redis_checks p m w ?st key ts) = map (\<lambda>i. (v + 1) + int i < m) [0..<length ts]
       \<and> snd (redis_checks p m w ?st key ts) ?k
           = Some \<lparr>cvalue = (v + 1) + int (length ts), cexpiry = Some E\<rparr>"
  proof (rule Cons.IH)
    show "?st ?k = Some \<lparr>cvalue = v + 1, cexpiry = Some E\<rparr>" by simp
    show "\<forall>t\<in>set ts. t < E" using Cons.prems by simp
    show "1 \<le> v + 1" using Cons.prems by simp
  qed
  have "map (\<lambda>i. v + int i < m) [0..<Suc (length ts)]
          = (v + 1 \<le> m) # map (\<lambda>i. (v + 1) + int i < m) [0..<length ts]"
    by (auto simp add: map_upt_Suc add.commute add.left_commute simp del: upt_Suc)
  moreover have "v + 1 + int (length ts) = v + int (Suc (length ts))" by simp
  ultimately show ?case using step ih
    by (simp add: redis_checks_Cons del: redis_checks.simps upt_Suc of_nat_Suc)
qed

lemma first_max_then_denied:
  assumes "1 \<le> (m::int)"
  shows "True # map (\<lambda>i. 1 + int i < m) [0..<nat m] = replicate (nat m) True @ [False]"
proof (rule nth_equalityI)
  show "length (True # map (\<lambda>i. 1 + int i < m) [0..<nat m]) = length (replicate (nat m) True @ [False])"
    by simp
next
  fix i assume "i < length (True # map (\<lambda>i. 1 + int i < m) [0..<nat m])"
  then have i: "i \<le> nat m" by simp
  show "(True # map (\<lambda>i. 1 + int i < m) [0..<nat m]) ! i = (replicate (nat m) True @ [False]) ! i"
  proof (cases i)
    case 0
    then show ?thesis using assms by (simp add: nth_append)
  next
    case (Suc j)
    then show ?thesis using assms i by (auto simp add: nth_append)
  qed
qed

lemma memory_first_call:
  assumes "limitMap key = None"
  shows "MemoryRateLimiter_check m w limitMap t key
           = (True, limitMap(key \<mapsto> \<lparr>count = 1, resetTime = t + w\<rparr>))"
  using assms by (simp add: MemoryRateLimiter_check_def)

lemma redis_first_call:
  assumes "store (p @ '':'' @ key) = None" "0 < w"
  shows "RedisRateLimiter_check p m w store t key
           = (1 \<le> m, store(p @ '':'' @ key \<mapsto> \<lparr>cvalue = 1, cexpiry = Some (t + 1000 * w)\<rparr>))"
  using assms
  by (simp add: RedisRateLimiter_check_def incr_def expire_counter_def counter_live_def Let_def)

lemma memory_run:
  assumes "limitMap key = None" "\<forall>t\<in>set later. t \<le> t1 + w"
  shows "fst (memory_checks m w limitMap key (t1 # later))
           = True # map (\<lambda>i. 1 + int i < m) [0..<length later]
       \<and> (\<exists>c'. snd (memory_checks m w limitMap key (t1 # later)) key
                  = Some \<lparr>count = c', resetTime = t1 + w\<rparr>)"
  using memory_checks_in_window[of "limitMap(key \<mapsto> \<lparr>count = 1, resetTime = t1 + w\<rparr>)" key 1
      "t1 + w" later m w] assms
  by (simp add: memory_first_call memory_checks_Cons del: memory_checks.simps)

lemma redis_run:
  assumes "store (p @ '':'' @ key) = None" "\<forall>t\<in>set later. t < t1 + 1000 * w" "0 < w"
  shows "fst (redis_checks p m w store key (t1 # later))
           = (1 \<le> m) # map (\<lambda>i. 1 + int i < m) [0..<length later]
       \<and> snd (redis_checks p m w store key (t1 # later)) (p @ '':'' @ key)
           = Some \<lparr>cvalue = 1 + int (length later), cexpiry = Some (t1 + 1000 * w)\<rparr>"
  using redis_checks_in_window[of
      "store(p @ '':'' @ key \<mapsto> \<lparr>cvalue = 1, cexpiry = Some (t1 + 1000 * w)\<rparr>)" p key 1
      "t1 + 1000 * w" later m w] assms
  by (simp add: redis_first_call redis_checks_Cons del: redis_checks.simps)

text \<open>
  Claim C7, as amended. Let \<open>maxRequests\<close> be at least 1 and let a caller whose key the
  limiter does not hold call \<open>check\<close> at \<open>t1\<close> and then \<open>maxRequests\<close> more times. With the
  memory limiter, when the later calls come no later than \<open>t1 + windowMs\<close>, the first
  \<open>maxRequests\<close> calls are allowed and the last is denied, and a call after
  \<open>t1 + windowMs\<close> is allowed. With the Redis limiter and a positive \<open>windowSec\<close>, the same
  holds when the later calls come before the key expires at \<open>t1 + 1000 * windowSec\<close>, for a
  call at or after that instant.
\<close>

theorem rate_limit_window:
  assumes "1 \<le> maxRequests" and "length later = nat maxRequests"
  shows "(limitMap key = None \<and> (\<forall>t\<in>set later. t \<le> t1 + windowMs) \<and> t1 + windowMs < t2
          \<longrightarrow> fst (memory_checks maxRequests windowMs limitMap key (t1 # later))
                = replicate (nat maxRequests) True @ [False]
            \<and> fst (MemoryRateLimiter_check maxRequests windowMs
                     (snd (memory_checks maxRequests windowMs limitMap key (t1 # later))) t2 key))
       \<and> (store (keyPrefix @ '':'' @ key) = None \<and> 0 < windowSec
          \<and> (\<forall>t\<in>set later. t < t1 + 1000 * windowSec) \<and> t1 + 1000 * windowSec \<le> t2
          \<longrightarrow> fst (redis_checks keyPrefix maxRequests windowSec store key (t1 # later))
                = replicate (nat maxRequests) True @ [False]
            \<and> fst (RedisRateLimiter_check keyPrefix maxRequests windowSec
                     (snd (redis_checks keyPrefix maxRequests windowSec store key (t1 # later)))
                     t2 key))"
proof (intro conjI impI)
  assume a: "limitMap key = None \<and> (\<forall>t\<in>set later. t \<le> t1 + windowMs) \<and> t1 + windowMs < t2"
  then have a1: "limitMap key = None" and a2: "\<forall>t\<in>set later. t \<le> t1 + windowMs"
    and a3: "t1 + windowMs < t2" by simp_all
  note r = memory_run[of limitMap key later t1 windowMs maxRequests, OF a1 a2]
  show "fst (memory_checks maxRequests windowMs limitMap key (t1 # later))
                = replicate (nat maxRequests) True @ [False]"
    using r assms first_max_then_denied[of maxRequests] by (simp del: memory_checks.simps)
  from r obtain c' where
    "snd (memory_checks maxRequests windowMs limitMap key (t1 # later)) key
       = Some \<lparr>count = c', resetTime = t1 + windowMs\<rparr>" by blast
  then show "fst (MemoryRateLimiter_check maxRequests windowMs
                     (snd (memory_checks maxRequests windowMs limitMap key (t1 # later))) t2 key)"
    using a3 by (simp add: MemoryRateLimiter_check_def del: memory_checks.simps)
next
  assume a: "store (keyPrefix @ '':'' @ key) = None \<and> 0 < windowSec
          \<and> (\<forall>t\<in>set later. t < t1 + 1000 * windowSec) \<and> t1 + 1000 * windowSec \<le> t2"
  then have a1: "store (keyPrefix @ '':'' @ key) = None"
    and a2: "\<forall>t\<in>set later. t < t1 + 1000 * windowSec"
    and a3: "t1 + 1000 * windowSec \<le> t2" and a4: "0 < windowSec" by simp_all
  note r = redis_run[of store keyPrefix key later t1 windowSec maxRequests, OF a1 a2 a4]
  show "fst (redis_checks keyPrefix maxRequests windowSec store key (t1 # later))
                = replicate (nat maxRequests) True @ [False]"
    using r assms first_max_then_denied[of maxRequests] by (simp del: redis_checks.simps)
  show "fst (RedisRateLimiter_check keyPrefix maxRequests windowSec
                     (snd (redis_checks keyPrefix maxRequests windowSec store key (t1 # later)))
                     t2 key)"
    using r a3 assms
    by (simp add: RedisRateLimiter_check_def incr_def counter_live_def Let_def
          del: redis_checks.simps)
qed


theorem rate_limit_window_witness:
  "(1::int) \<le> 3 \<and> length [1, 2, 3 :: int] = nat 3
   \<and> fresh_limitMap ''ip-1'' = None \<and> fresh_store (''chat'' @ '':'' @ ''ip-1'') = None
   \<and> fst (memory_checks 3 60000 fresh_limitMap ''ip-1'' [0, 1, 2, 3])
       = [True, True, True, False]
   \<and> fst (MemoryRateLimiter_check 3 60000
            (snd (memory_checks 3 60000 fresh_limitMap ''ip-1'' [0, 1, 2, 3])) 60001 ''ip-1'')
   \<and> fst (redis_checks ''chat'' 3 60 fresh_store ''ip-1'' [0, 1, 2, 3])
       = [True, True, True, False]
   \<and> fst (RedisRateLimiter_check ''chat'' 3 60
            (snd (redis_checks ''chat'' 3 60 fresh_store ''ip-1'' [0, 1, 2, 3])) 60001 ''ip-1'')"
  using rate_limit_window [of 3 "[1, 2, 3]" fresh_limitMap "''ip-1''" 0 60000 60001
      fresh_store "''chat''" 60]
  by (simp add: fresh_limitMap_def fresh_store_def numeral_3_eq_3
        del: memory_checks.simps redis_checks.simps)

text \<open>
  With \<open>maxRequests = 0\<close> the memory limiter allows the first call of a fresh key, which
  is the call number \<open>maxRequests + 1\<close>.
\<close>

theorem rate_limit_window_counterexample:
  "fresh_limitMap ''ip-1'' = None
   \<and> fst (memory_checks 0 60000 fresh_limitMap ''ip-1'' [0]) = [True]
   \<and> fst (memory_checks 0 60000 fresh_limitMap ''ip-1'' [0]) \<noteq> replicate (nat 0) True @ [False]"
  by (simp add: fresh_limitMap_def MemoryRateLimiter_check_def)

text \<open>
  With a window of 0 seconds \<open>EXPIRE\<close> deletes the counter that \<open>INCR\<close> has just created,
  and the Redis limiter allows every call.
\<close>

lemma redis_zero_window:
  "fst (redis_checks ''chat'' 1 0 fresh_store ''ip-1'' [0, 0]) = [True, True]"
  by (simp add: fresh_store_def RedisRateLimiter_check_def incr_def expire_counter_def
        counter_live_def Let_def)

text \<open>
  Claim C8, as amended. For \<open>maxRequests\<close> at least 1, a positive window of the same
  length for both limiters (\<open>windowMs = 1000 * windowSec\<close>), and a caller unknown to both,
  calls at \<open>t1\<close> and then at instants before \<open>t1 + windowMs\<close> get the same answers from
  the memory limiter and from the Redis limiter.
\<close>

theorem backends_agree_within_window:
  assumes "1 \<le> maxRequests" and "0 < windowSec" and "windowMs = 1000 * windowSec"
    and "limitMap key = None" and "store (keyPrefix @ '':'' @ key) = None"
    and "\<forall>t\<in>set later. t < t1 + windowMs"
  shows "fst (memory_checks maxRequests windowMs limitMap key (t1 # later))
       = fst (redis_checks keyPrefix maxRequests windowSec store key (t1 # later))"
proof -
  have w: "\<forall>t\<in>set later. t \<le> t1 + windowMs" using assms(6) by auto
  have r: "\<forall>t\<in>set later. t < t1 + 1000 * windowSec" using assms(3,6) by simp
  show ?thesis
    using memory_run[of limitMap key later t1 windowMs maxRequests, OF assms(4) w]
      redis_run[of store keyPrefix key later t1 windowSec maxRequests, OF assms(5) r assms(2)]
      assms(1)
    by (simp del: memory_checks.simps redis_checks.simps)
qed

theorem backends_agree_within_window_witness:
  "(1::int) \<le> 3 \<and> (0::int) < 60 \<and> (60000::int) = 1000 * 60
   \<and> fst (memory_checks 3 60000 fresh_limitMap ''ip-1'' [0, 10, 20, 30, 59999])
     = fst (redis_checks ''chat'' 3 60 fresh_store ''ip-1'' [0, 10, 20, 30, 59999])
   \<and> fst (redis_checks ''chat'' 3 60 fresh_store ''ip-1'' [0, 10, 20, 30, 59999])
     = [True, True, True, False, False]"
proof -
  have "fst (redis_checks ''chat'' 3 60 fresh_store ''ip-1'' [0, 10, 20, 30, 59999])
     = [True, True, True, False, False]"
    by (simp add: fresh_store_def RedisRateLimiter_check_def incr_def expire_counter_def
          counter_live_def Let_def)
  then show ?thesis
    using backends_agree_within_window [of 3 60 60000 fresh_limitMap "''ip-1''" fresh_store
      "''chat''" "[10, 20, 30, 59999]" 0]
    by (simp add: fresh_limitMap_def fresh_store_def del: memory_checks.simps redis_checks.simps)
qed

text \<open>
  With \<open>maxRequests = 0\<close> the two limiters differ on the first call: the memory limiter
  allows it, the Redis limiter does not.
\<close>

theorem backends_agree_counterexample:
  "fst (memory_checks 0 60000 fresh_limitMap ''ip-1'' [0, 1]) = [True, False]
   \<and> fst (redis_checks ''chat'' 0 60 fresh_store ''ip-1'' [0, 1]) = [False, False]
   \<and> fst (memory_checks 0 60000 fresh_limitMap ''ip-1'' [0, 1])
       \<noteq> fst (redis_checks ''chat'' 0 60 fresh_store ''ip-1'' [0, 1])"
  by (simp add: fresh_limitMap_def fresh_store_def MemoryRateLimiter_check_def
        RedisRateLimiter_check_def incr_def expire_counter_def counter_live_def Let_def)

section \<open>Properties of the vector search\<close>

lemma where_clause_row:
  assumes "where_clause pg q t d"
  shows "\<exists>e. row_embedding d = Some e
             \<and> (case cosine_distance pg e q of
                   None \<Rightarrow> True
                 | Some x \<Rightarrow> t \<le> one_minus pg x)"
  using assms by (auto simp add: where_clause_def similarity_of_def split: option.splits)

lemma keyed_rows:
  assumes "p \<in> set (List.map_filter
                      (\<lambda>d. case order_key pg q d of None \<Rightarrow> None | Some x \<Rightarrow> Some (x, d))
                      rows)"
  shows "snd p \<in> set rows \<and> order_key pg q (snd p) = Some (fst p)"
  using assms by (auto simp add: List.map_filter_def split: option.splits)

lemma order_by_numeric:
  assumes "\<forall>d\<in>set rows. order_key pg q d \<noteq> None"
  shows "order_by pg q rows =
           map snd (sort_key fst
             (List.map_filter
                (\<lambda>d. case order_key pg q d of None \<Rightarrow> None | Some x \<Rightarrow> Some (x, d)) rows))"
  using assms by (simp add: order_by_def filter_empty_conv)

lemma descending_similarity:
  assumes "sorted (map fst ps)" and "antimono f"
  shows "sorted_wrt (\<lambda>a b. b \<le> a) (map (\<lambda>p. f (fst p)) (ps :: (real \<times> 'a) list))"
  using assms by (induction ps) (auto simp add: antimono_def)

lemma sorted_map_take: "sorted (map f xs) \<Longrightarrow> sorted (map f (take n xs))"
  by (simp add: take_map[symmetric])

lemma match_documents_Inr:
  assumes "searchSimilarDocuments rpc_fails pg documents q t limit = Inr results"
  shows "length q = embedding_dimension \<and> 0 \<le> limit
       \<and> results = map (select_row pg q)
                     (take (nat limit) (order_by pg q (filter (where_clause pg q t) documents)))"
  using assms
  by (auto simp add: searchSimilarDocuments_def match_documents_def
      split: if_splits sum.splits)

text \<open>
  Claim C1, as amended. Let the cosine distance between the query embedding and every
  stored embedding be a number, and let the subtraction \<open>1 - x\<close> of the database be
  antimonotone, as a floating-point subtraction is. Then, whatever the query embedding, the
  threshold and the limit, the records that \<open>searchSimilarDocuments\<close> returns all have a
  similarity of at least the threshold, come in descending order of similarity, and are
  each made from a row of the table that has an embedding, with the row's content and with
  1 minus the cosine distance between the row's embedding and the query embedding as
  similarity; there are no more of them than the limit.
\<close>

theorem searchSimilarDocuments_sound:
  assumes "searchSimilarDocuments rpc_fails pg documents q threshold limit = Inr results"
      and "\<forall>d\<in>set documents. \<forall>e. row_embedding d = Some e \<longrightarrow> cosine_distance pg e q \<noteq> None"
      and "antimono (one_minus pg)"
  shows "(\<forall>r\<in>set results. \<exists>s. result_similarity r = Some s \<and> threshold \<le> s)
       \<and> (\<exists>sims. map result_similarity results = map Some sims
                 \<and> sorted_wrt (\<lambda>a b. b \<le> a) sims)
       \<and> (\<forall>r\<in>set results. \<exists>d\<in>set documents. \<exists>e x.
             row_embedding d = Some e \<and> cosine_distance pg e q = Some x
             \<and> result_content r = row_content d
             \<and> result_similarity r = Some (one_minus pg x))
       \<and> int (length results) \<le> limit"
proof -
  let ?rows = "filter (where_clause pg q threshold) documents"
  let ?keyed = "List.map_filter
                  (\<lambda>d. case order_key pg q d of None \<Rightarrow> None | Some x \<Rightarrow> Some (x, d)) ?rows"
  let ?top = "take (nat limit) (sort_key fst ?keyed)"
  have lim: "0 \<le> limit"
    and res0: "results = map (select_row pg q) (take (nat limit) (order_by pg q ?rows))"
    using match_documents_Inr [OF assms(1)] by simp_all
  have row: "\<exists>e x. row_embedding d = Some e \<and> cosine_distance pg e q = Some x
                 \<and> threshold \<le> one_minus pg x"
    if "d \<in> set ?rows" for d
  proof -
    from that have d: "d \<in> set documents" and w: "where_clause pg q threshold d" by simp_all
    from where_clause_row [OF w] obtain e where e: "row_embedding d = Some e"
      and c: "case cosine_distance pg e q of None \<Rightarrow> True | Some x \<Rightarrow> threshold \<le> one_minus pg x"
      by blast
    from assms(2) d e obtain x where x: "cosine_distance pg e q = Some x" by blast
    with c e show ?thesis by simp
  qed
  have "\<forall>d\<in>set ?rows. order_key pg q d \<noteq> None"
    using row by (fastforce simp add: order_key_def)
  then have ord: "order_by pg q ?rows = map snd (sort_key fst ?keyed)"
    by (rule order_by_numeric)
  have res: "results = map (\<lambda>p. select_row pg q (snd p)) ?top"
    unfolding res0 ord by (simp add: take_map comp_def)
  have top: "snd p \<in> set ?rows \<and> order_key pg q (snd p) = Some (fst p)" if "p \<in> set ?top" for p
  proof -
    from that have "p \<in> set ?keyed" by (auto dest: in_set_takeD)
    then show ?thesis by (rule keyed_rows)
  qed
  have sel: "\<exists>e. row_embedding (snd p) = Some e \<and> cosine_distance pg e q = Some (fst p)
               \<and> threshold \<le> one_minus pg (fst p)
               \<and> result_similarity (select_row pg q (snd p)) = Some (one_minus pg (fst p))
               \<and> snd p \<in> set documents"
    if "p \<in> set ?top" for p
  proof -
    from top [OF that] have m: "snd p \<in> set ?rows" and k: "order_key pg q (snd p) = Some (fst p)"
      by simp_all
    from row [OF m] obtain e x where e: "row_embedding (snd p) = Some e"
      and x: "cosine_distance pg e q = Some x" and t: "threshold \<le> one_minus pg x" by blast
    from k e x have "x = fst p" by (simp add: order_key_def)
    with e x t m show ?thesis by (simp add: select_row_def similarity_of_def)
  qed
  have a: "\<forall>r\<in>set results. \<exists>s. result_similarity r = Some s \<and> threshold \<le> s"
    unfolding res using sel by fastforce
  have "result_similarity (select_row pg q (snd p)) = Some (one_minus pg (fst p))"
    if "p \<in> set ?top" for p
    using sel [OF that] by blast
  then have sims: "map result_similarity results = map Some (map (\<lambda>p. one_minus pg (fst p)) ?top)"
    unfolding res by simp
  have "sorted (map fst ?top)"
    by (rule sorted_map_take) simp
  then have "sorted_wrt (\<lambda>a b. b \<le> a) (map (\<lambda>p. one_minus pg (fst p)) ?top)"
    using assms(3) by (rule descending_similarity)
  with sims have b: "\<exists>sims. map result_similarity results = map Some sims
                 \<and> sorted_wrt (\<lambda>a b. b \<le> a) sims"
    by blast
  have c: "\<forall>r\<in>set results. \<exists>d\<in>set documents. \<exists>e x.
             row_embedding d = Some e \<and> cosine_distance pg e q = Some x
             \<and> result_content r = row_content d
             \<and> result_similarity r = Some (one_minus pg x)"
  proof
    fix r assume "r \<in> set results"
    then obtain p where p: "p \<in> set ?top" and r: "r = select_row pg q (snd p)"
      unfolding res by auto
    from sel [OF p] obtain e where "row_embedding (snd p) = Some e"
      "cosine_distance pg e q = Some (fst p)"
      "result_similarity (select_row pg q (snd p)) = Some (one_minus pg (fst p))"
      "snd p \<in> set documents" by blast
    moreover have "result_content r = row_content (snd p)" by (simp add: r select_row_def)
    ultimately show "\<exists>d\<in>set documents. \<exists>e x.
             row_embedding d = Some e \<and> cosine_distance pg e q = Some x
             \<and> result_content r = row_content d
             \<and> result_similarity r = Some (one_minus pg x)"
      using r by blast
  qed
  have d: "int (length results) \<le> limit"
    unfolding res using lim by simp
  from a b c d show ?thesis by blast
qed

lemma length_vec2: "length (vec2 a b) = 1536"
  by (simp add: vec2_def)

lemma exact_distance_vec2:
  "exact_distance (vec2 a b) (vec2 c d) =
     (if (a * a + b * b) * (c * c + d * d) = 0 then None
      else Some (1 - (a * c + b * d) / sqrt ((a * a + b * b) * (c * c + d * d))))"
  by (simp add: exact_distance_def vec2_def zip_replicate sum_list_replicate Let_def)


text \<open>
  Without the condition on the distances, a record that is returned still has as
  similarity 1 minus the cosine distance between its row's embedding and the query
  embedding; this similarity is at least the threshold or \<open>NaN\<close>.
\<close>

lemma order_by_set: "set (order_by pg q rows) \<subseteq> set rows"
  by (auto simp add: order_by_def List.map_filter_def split: option.splits)

lemma searchSimilarDocuments_general:
  assumes "searchSimilarDocuments rpc_fails pg documents q threshold limit = Inr results"
    and "r \<in> set results"
  shows "\<exists>d\<in>set documents. \<exists>e. row_embedding d = Some e
           \<and> result_content r = row_content d
           \<and> result_similarity r = map_option (one_minus pg) (cosine_distance pg e q)
           \<and> (case result_similarity r of None \<Rightarrow> True | Some s \<Rightarrow> threshold \<le> s)"
proof -
  let ?rows = "filter (where_clause pg q threshold) documents"
  have "results = map (select_row pg q) (take (nat limit) (order_by pg q ?rows))"
    using match_documents_Inr [OF assms(1)] by simp
  with assms(2) obtain d where r: "r = select_row pg q d"
    and "d \<in> set (take (nat limit) (order_by pg q ?rows))" by auto
  then have "d \<in> set (order_by pg q ?rows)" by (auto dest: in_set_takeD)
  then have d: "d \<in> set documents" and w: "where_clause pg q threshold d"
    using order_by_set[of pg q ?rows] by auto
  from where_clause_row [OF w] obtain e where e: "row_embedding d = Some e"
    and c: "case cosine_distance pg e q of None \<Rightarrow> True | Some x \<Rightarrow> threshold \<le> one_minus pg x"
    by blast
  have "result_content r = row_content d
      \<and> result_similarity r = map_option (one_minus pg) (cosine_distance pg e q)
      \<and> (case result_similarity r of None \<Rightarrow> True | Some s \<Rightarrow> threshold \<le> s)"
    using e c unfolding r
    by (simp add: select_row_def similarity_of_def split: option.splits)
  with d e show ?thesis by blast
qed

lemma example_distances:
  "exact_distance (vec2 0 1) (vec2 1 0) = Some 1"
  "exact_distance (vec2 (- 1) 0) (vec2 1 0) = Some 2"
  "exact_distance (vec2 1 0) (vec2 1 0) = Some 0"
  "exact_distance (vec2 0 0) (vec2 1 0) = None"
  "exact_distance (vec2 a b) (vec2 0 0) = None"
  by (simp_all add: exact_distance_vec2)

theorem searchSimilarDocuments_sound_witness:
  "searchSimilarDocuments False exact_pg example_documents (vec2 1 0) (- 1 / 2) 5
     = Inr [\<lparr>result_content = ''same'', result_metadata = [], result_similarity = Some 1\<rparr>,
            \<lparr>result_content = ''far'', result_metadata = [], result_similarity = Some 0\<rparr>]
   \<and> antimono (one_minus exact_pg)
   \<and> (\<exists>sims. map result_similarity
                [\<lparr>result_content = ''same'', result_metadata = [], result_similarity = Some 1\<rparr>,
                 \<lparr>result_content = ''far'', result_metadata = [], result_similarity = Some 0\<rparr>]
                = map Some sims
              \<and> sorted_wrt (\<lambda>a b. b \<le> a) sims)"
proof -
  have e: "searchSimilarDocuments False exact_pg example_documents (vec2 1 0) (- 1 / 2) 5
     = Inr [\<lparr>result_content = ''same'', result_metadata = [], result_similarity = Some 1\<rparr>,
            \<lparr>result_content = ''far'', result_metadata = [], result_similarity = Some 0\<rparr>]"
    by (simp add: searchSimilarDocuments_def match_documents_def example_documents_def
          embedding_dimension_def length_vec2 where_clause_def similarity_of_def order_by_def
          order_key_def select_row_def exact_pg_def example_distances)
  have n: "\<forall>d\<in>set example_documents. \<forall>e. row_embedding d = Some e \<longrightarrow>
             cosine_distance exact_pg e (vec2 1 0) \<noteq> None"
    by (simp add: example_documents_def exact_pg_def example_distances)
  have m: "antimono (one_minus exact_pg)"
    by (simp add: exact_pg_def antimono_def)
  show ?thesis
    using searchSimilarDocuments_sound [OF e n m] e m by blast
qed

text \<open>
  The claim as stated, for every query embedding and every table, fails on a zero vector,
  whose cosine distance to every vector is \<open>NaN\<close>: a stored zero vector is returned, after
  the rows whose similarity is a number, and for the zero vector as query every row that
  has an embedding is returned; the similarity of these records is \<open>NaN\<close>, not a number
  that is at least the threshold.
\<close>

theorem searchSimilarDocuments_sound_counterexample:
  "searchSimilarDocuments False exact_pg (zero_row # example_documents) (vec2 1 0) (1 / 2) 5
     = Inr [\<lparr>result_content = ''same'', result_metadata = [], result_similarity = Some 1\<rparr>,
            \<lparr>result_content = ''zero'', result_metadata = [], result_similarity = None\<rparr>]
   \<and> searchSimilarDocuments False exact_pg example_documents (vec2 0 0) (1 / 2) 5
     = Inr [\<lparr>result_content = ''far'', result_metadata = [], result_similarity = None\<rparr>,
            \<lparr>result_content = ''opposite'', result_metadata = [], result_similarity = None\<rparr>,
            \<lparr>result_content = ''same'', result_metadata = [], result_similarity = None\<rparr>]"
  by (simp add: searchSimilarDocuments_def match_documents_def example_documents_def
        zero_row_def embedding_dimension_def length_vec2 where_clause_def similarity_of_def
        order_by_def order_key_def select_row_def exact_pg_def example_distances)

text \<open>A query vector that has not 1536 components makes the search fail.\<close>

lemma searchSimilarDocuments_dimension:
  "searchSimilarDocuments False exact_pg example_documents [1, 0] (1 / 2) 5
     = Inl (Error ''Failed to search documents'')"
  by (simp add: searchSimilarDocuments_def match_documents_def embedding_dimension_def)

section \<open>Properties of eviction\<close>

subsection \<open>Association lists\<close>

lemma upsert_map_keys: "set (map fst (upsert k v kvs)) = insert k (set (map fst kvs))"
proof (induction kvs)
  case Nil
  then show ?case by simp
next
  case (Cons kv kvs)
  obtain k' v' where kv: "kv = (k', v')" by (cases kv)
  show ?case
    using Cons.IH unfolding kv by (cases "k' = k") (simp_all add: insert_commute)
qed

lemma upsert_keys: "fst ` set (upsert k v kvs) = insert k (fst ` set kvs)"
  using upsert_map_keys[of k v kvs] by simp

lemma upsert_distinct: "distinct (map fst kvs) \<Longrightarrow> distinct (map fst (upsert k v kvs))"
proof (induction kvs)
  case Nil
  then show ?case by simp
next
  case (Cons kv kvs)
  obtain k' v' where kv: "kv = (k', v')" by (cases kv)
  show ?case
    using Cons upsert_map_keys[of k v kvs] unfolding kv
    by (cases "k' = k") simp_all
qed

lemma upsert_fresh: "k \<notin> fst ` set kvs \<Longrightarrow> upsert k v kvs = kvs @ [(k, v)]"
  by (induction kvs) auto

lemma upsert_length: "length kvs \<le> length (upsert k v kvs)"
  by (induction kvs) auto

lemma upsert_not_Nil: "upsert k v kvs \<noteq> []"
  by (cases kvs) (auto split: if_splits)

lemma length_filter_keys:
  assumes "distinct (map fst kvs)"
  shows "length (filter (\<lambda>kv. fst kv \<in> K) kvs) = card (K \<inter> fst ` set kvs)"
proof -
  have "length (filter (\<lambda>kv. fst kv \<in> K) kvs) = length (filter (\<lambda>k. k \<in> K) (map fst kvs))"
    by (simp add: filter_map comp_def)
  also have "\<dots> = card ({k. k \<in> K} \<inter> set (map fst kvs))"
    using assms by (rule distinct_length_filter)
  finally show ?thesis by simp
qed

lemma length_filter_not_keys:
  assumes "distinct (map fst kvs)" and "distinct ks" and "set ks \<subseteq> fst ` set kvs"
  shows "length (filter (\<lambda>kv. fst kv \<notin> set ks) kvs) = length kvs - length ks"
proof -
  have "length (filter (\<lambda>kv. fst kv \<in> set ks) kvs) = card (set ks)"
    using length_filter_keys[OF assms(1), of "set ks"] assms(3) by (simp add: Int_absorb2)
  then have "length (filter (\<lambda>kv. fst kv \<in> set ks) kvs) = length ks"
    using assms(2) by (simp add: distinct_card)
  moreover have "length (filter (\<lambda>kv. fst kv \<in> set ks) kvs)
        + length (filter (\<lambda>kv. fst kv \<notin> set ks) kvs) = length kvs"
    using sum_length_filter_compl[of "\<lambda>kv. fst kv \<in> set ks" kvs] by (simp add: comp_def)
  ultimately show ?thesis by simp
qed

subsection \<open>The oldest entries\<close>

lemma stamps_keys: "map fst (stamps es) = map fst es"
  by (simp add: stamps_def comp_def)

lemma sorted_stamps_distinct:
  assumes "distinct (map fst es)"
  shows "distinct (map fst (sort_key snd (stamps es)))"
proof -
  have "distinct (map fst (stamps es))" using assms by (simp add: stamps_keys)
  then have "distinct (stamps es)" and "inj_on fst (set (stamps es))"
    by (simp_all add: distinct_map)
  then show ?thesis by (simp add: distinct_map)
qed

lemma oldest_keys_distinct: "distinct (map fst es) \<Longrightarrow> distinct (oldest_keys c es)"
  using sorted_stamps_distinct[of es]
  by (simp add: oldest_keys_def take_map[symmetric])

lemma oldest_keys_subset: "set (oldest_keys c es) \<subseteq> fst ` set es"
proof -
  have "set (take c (sort_key snd (stamps es))) \<subseteq> set (stamps es)"
    using set_take_subset[of c "sort_key snd (stamps es)"] by simp
  then have "fst ` set (take c (sort_key snd (stamps es))) \<subseteq> fst ` set (stamps es)"
    by blast
  also have "fst ` set (stamps es) = fst ` set es"
    using stamps_keys[of es] by (metis set_map)
  finally show ?thesis by (simp add: oldest_keys_def)
qed

lemma oldest_keys_length: "c \<le> length es \<Longrightarrow> length (oldest_keys c es) = c"
  by (simp add: oldest_keys_def stamps_def)

lemma evict_length:
  assumes "distinct (map fst es)" and "c \<le> length es"
  shows "length (filter (\<lambda>kv. fst kv \<notin> set (oldest_keys c es)) es) = length es - c"
  using length_filter_not_keys[OF assms(1) oldest_keys_distinct[OF assms(1)] oldest_keys_subset]
    oldest_keys_length[OF assms(2)]
  by simp

lemma evicted_are_oldest:
  assumes d: "distinct (map fst es)"
    and old: "old \<in> set es" "fst old \<in> set (oldest_keys c es)"
    and kept: "kept \<in> set es" "fst kept \<notin> set (oldest_keys c es)"
  shows "timestamp (snd old) \<le> timestamp (snd kept)"
proof -
  let ?f = "\<lambda>kv. (fst kv, timestamp (snd kv))"
  let ?S = "sort_key snd (stamps es)"
  have split: "?S = take c ?S @ drop c ?S" by simp
  have "sorted (map snd ?S)" by simp
  then have "sorted (map snd (take c ?S) @ map snd (drop c ?S))"
    by (metis split map_append)
  then have le: "\<And>x y. x \<in> set (take c ?S) \<Longrightarrow> y \<in> set (drop c ?S) \<Longrightarrow> snd x \<le> snd y"
    by (auto simp add: sorted_append)
  have setS: "set ?S = ?f ` set es" by (simp add: stamps_def)
  obtain p where p: "p \<in> set (take c ?S)" "fst p = fst old"
    using old(2) by (auto simp add: oldest_keys_def)
  then have "p \<in> set ?S" by (auto dest: in_set_takeD)
  then obtain kv where kv: "kv \<in> set es" "p = ?f kv" using setS by auto
  have "kv = old"
    using d kv p(2) old(1) by (metis (no_types, lifting) eq_key_imp_eq_value fst_conv prod.collapse)
  then have a: "?f old \<in> set (take c ?S)" using kv p by simp
  have "?f kept \<in> set ?S" using kept(1) setS by blast
  moreover have "?f kept \<notin> set (take c ?S)"
    using kept(2) by (force simp add: oldest_keys_def)
  ultimately have b: "?f kept \<in> set (drop c ?S)"
    by (metis split Un_iff set_append)
  from le[OF a b] show ?thesis by simp
qed


subsection \<open>One store without failing commands\<close>

lemma live_hash_idem: "live_hash (live_hash h now) now = live_hash h now"
  by (simp add: live_hash_def expired_def empty_hash_def)

lemma live_hash_update:
  "live_hash ((live_hash h now)\<lparr>hfields := es\<rparr>) now = (live_hash h now)\<lparr>hfields := es\<rparr>"
  by (simp add: live_hash_def expired_def empty_hash_def)

lemma live_hash_fresh_ttl:
  "0 < ttl \<Longrightarrow> live_hash (h\<lparr>expires_at := Some (now + 1000 * ttl)\<rparr>) now
     = h\<lparr>expires_at := Some (now + 1000 * ttl)\<rparr>"
  by (simp add: live_hash_def expired_def)

lemma live_empty: "live_hash empty_hash now = empty_hash"
  by (simp add: live_hash_def expired_def empty_hash_def)

lemma hlen_empty: "\<forall>op. \<not> f op \<Longrightarrow> hlen f empty_hash now = Inr 0"
  by (simp add: hlen_def live_empty) (simp add: empty_hash_def)

lemma store_step_no_faults:
  assumes nf: "\<forall>op. \<not> call_fails c op"
  shows "store_step ar h c =
     (if call_ttl c \<le> 0 then empty_hash
      else if length (inserted ar h c) > MAX_CACHE_ENTRIES
      then (let rest = filter (\<lambda>kv. fst kv \<notin> set (oldest_keys
                           (length (inserted ar h c) - MAX_CACHE_ENTRIES) (inserted ar h c)))
                         (inserted ar h c)
            in if rest = [] then empty_hash
               else \<lparr>hfields = rest, expires_at = Some (call_now c + 1000 * call_ttl c)\<rparr>)
      else \<lparr>hfields = inserted ar h c, expires_at = Some (call_now c + 1000 * call_ttl c)\<rparr>)"
proof -
  let ?now = "call_now c" and ?es = "inserted ar h c" and ?ttl = "call_ttl c"
  let ?h1 = "(live_hash h ?now)\<lparr>hfields := ?es\<rparr>"
  have set: "hset (call_fails c) h ?now (call_uuid c) (new_entry ar c) = Inr ?h1"
    using nf by (simp add: hset_def inserted_def live_entries_def Let_def)
  have ne: "?es \<noteq> []" by (simp add: inserted_def upsert_not_Nil)
  show ?thesis
  proof (cases "?ttl \<le> 0")
    case True
    have "expire (call_fails c) ?h1 ?now ?ttl = Inr empty_hash"
      using nf ne True by (simp add: expire_def live_hash_update Let_def)
    then show ?thesis
      using set True
      by (simp add: store_step_def storeInSemanticCache_def storeInSemanticCache_try_def
            new_entry_def[symmetric] MAX_CACHE_ENTRIES_def hlen_empty[OF nf])
  next
    case False
    let ?h2 = "\<lparr>hfields = ?es, expires_at = Some (?now + 1000 * ?ttl)\<rparr>"
    have h2: "?h1\<lparr>expires_at := Some (?now + 1000 * ?ttl)\<rparr> = ?h2" by simp
    have ex: "expire (call_fails c) ?h1 ?now ?ttl = Inr ?h2"
      using nf ne False by (simp add: expire_def live_hash_update Let_def)
    have live2: "live_hash ?h2 ?now = ?h2"
      using False by (simp add: live_hash_def expired_def)
    have len: "hlen (call_fails c) ?h2 ?now = Inr (length ?es)"
      using nf by (simp add: hlen_def live2)
    show ?thesis
    proof (cases "length ?es > MAX_CACHE_ENTRIES")
      case small: False
      then show ?thesis
        using set ex len False
        by (simp add: store_step_def storeInSemanticCache_def storeInSemanticCache_try_def
              new_entry_def[symmetric])
    next
      case big: True
      let ?c = "length ?es - MAX_CACHE_ENTRIES"
      have cnt: "nat (int (length ?es) - int MAX_CACHE_ENTRIES) = ?c" by simp
      have pos: "\<not> int (length ?es) - int MAX_CACHE_ENTRIES < 0" using big by simp
      have sl: "slice0 (sort_key snd (map (\<lambda>kv. (fst kv, timestamp (snd kv))) ?es))
                  (int (length ?es) - int MAX_CACHE_ENTRIES)
                = take ?c (sort_key snd (stamps ?es))"
        unfolding slice0_def stamps_def using pos cnt by simp
      have lpos: "length (take ?c (sort_key snd (stamps ?es))) > 0"
        using big by (simp add: stamps_def)
      have ev: "evictOldestEntries (call_fails c) ?h2 ?now (int (length ?es) - int MAX_CACHE_ENTRIES)
          = (Inr (),
             (let rest = filter (\<lambda>kv. fst kv \<notin> set (oldest_keys ?c ?es)) ?es
              in if rest = [] then empty_hash
                 else \<lparr>hfields = rest, expires_at = Some (?now + 1000 * ?ttl)\<rparr>))"
        unfolding evictOldestEntries_def
        using nf lpos
        by (simp add: hgetall_def live2 sl hdel_def oldest_keys_def Let_def del: length_greater_0_conv)
      show ?thesis
        using set ex len False big ev
        by (simp add: store_step_def storeInSemanticCache_def storeInSemanticCache_try_def
              new_entry_def[symmetric] Let_def)
    qed
  qed
qed


subsection \<open>Distinct field names are kept\<close>

lemma wf_empty: "wf_hash empty_hash"
  by (simp add: wf_hash_def empty_hash_def)

lemma wf_live: "wf_hash h \<Longrightarrow> wf_hash (live_hash h now)"
  by (simp add: live_hash_def wf_empty)

lemma wf_hset: "wf_hash h \<Longrightarrow> hset f h now k v = Inr h' \<Longrightarrow> wf_hash h'"
  using wf_live[of h now] upsert_distinct[of "hfields (live_hash h now)" k v]
  by (auto simp add: hset_def wf_hash_def Let_def split: if_splits)

lemma wf_expire: "wf_hash h \<Longrightarrow> expire f h now ttl = Inr h' \<Longrightarrow> wf_hash h'"
  using wf_live[of h now] wf_empty
  by (auto simp add: expire_def wf_hash_def Let_def split: if_splits)

lemma wf_hdel: "wf_hash h \<Longrightarrow> hdel f h now ks = Inr h' \<Longrightarrow> wf_hash h'"
  using wf_live[of h now] wf_empty
  by (auto simp add: hdel_def wf_hash_def Let_def distinct_map_filter split: if_splits)

lemma wf_evict: "wf_hash h \<Longrightarrow> wf_hash (snd (evictOldestEntries f h now n))"
  by (auto simp add: evictOldestEntries_def Let_def split: sum.splits dest: wf_hdel)

lemma wf_store_try:
  assumes "wf_hash h"
  shows "wf_hash (snd (storeInSemanticCache_try ar f h now k q e r ttl))"
proof (cases "hset f h now k
    (json_roundtrip ar \<lparr>query = q, embedding = e, response = r, timestamp = now\<rparr>)")
  case (Inl err)
  then show ?thesis using assms by (simp add: storeInSemanticCache_try_def)
next
  case (Inr h1)
  then have w1: "wf_hash h1" using assms wf_hset by blast
  show ?thesis
  proof (cases "expire f h1 now ttl")
    case (Inl err)
    then show ?thesis using Inr w1 by (simp add: storeInSemanticCache_try_def)
  next
    case h2: (Inr h2)
    then have w2: "wf_hash h2" using w1 wf_expire by blast
    show ?thesis
      using Inr h2 w2 wf_evict[OF w2]
      by (simp add: storeInSemanticCache_try_def split: sum.splits)
  qed
qed

lemma store_state:
  "snd (storeInSemanticCache ar f h now k q e r ttl) = snd (storeInSemanticCache_try ar f h now k q e r ttl)"
  by (auto simp add: storeInSemanticCache_def split: prod.splits sum.splits)

lemma wf_store_step: "wf_hash h \<Longrightarrow> wf_hash (store_step ar h c)"
  using wf_store_try[of h ar "call_fails c" "call_now c" "call_uuid c" "call_query c"
      "call_embedding c" "call_response c" "call_ttl c"]
  by (simp add: store_step_def store_state)

lemma inserted_distinct: "wf_hash h \<Longrightarrow> distinct (map fst (inserted ar h c))"
  using wf_live[of h "call_now c"]
  by (simp add: inserted_def live_entries_def wf_hash_def upsert_distinct)

subsection \<open>The capacity bound\<close>

lemma live_with_ttl:
  "0 < ttl \<Longrightarrow> live_entries \<lparr>hfields = es, expires_at = Some (now + 1000 * ttl)\<rparr> now = es"
  by (simp add: live_entries_def live_hash_def expired_def)

lemma live_entries_empty: "live_entries empty_hash now = []"
  by (simp add: live_entries_def live_empty) (simp add: empty_hash_def)

lemma store_step_evicts:
  assumes wf: "wf_hash h" and nf: "\<forall>op. \<not> call_fails c op" and ttl: "0 < call_ttl c"
    and big: "length (inserted ar h c) > MAX_CACHE_ENTRIES"
  shows "live_entries (store_step ar h c) (call_now c)
           = filter (\<lambda>kv. fst kv \<notin> set (oldest_keys
                           (length (inserted ar h c) - MAX_CACHE_ENTRIES) (inserted ar h c)))
               (inserted ar h c)"
    and "length (live_entries (store_step ar h c) (call_now c)) = MAX_CACHE_ENTRIES"
proof -
  let ?es = "inserted ar h c"
  let ?rest = "filter (\<lambda>kv. fst kv \<notin> set (oldest_keys (length ?es - MAX_CACHE_ENTRIES) ?es)) ?es"
  have len: "length ?rest = MAX_CACHE_ENTRIES"
    using evict_length[OF inserted_distinct[OF wf, of ar c], of "length ?es - MAX_CACHE_ENTRIES"] big
    by simp
  then have "?rest \<noteq> []" by (auto simp add: MAX_CACHE_ENTRIES_def)
  then have "store_step ar h c
      = \<lparr>hfields = ?rest, expires_at = Some (call_now c + 1000 * call_ttl c)\<rparr>"
    using store_step_no_faults[OF nf, of ar h] ttl big by (simp add: Let_def)
  then show "live_entries (store_step ar h c) (call_now c) = ?rest"
    using ttl by (simp add: live_with_ttl)
  with len show "length (live_entries (store_step ar h c) (call_now c)) = MAX_CACHE_ENTRIES"
    by simp
qed

lemma store_step_keeps:
  assumes nf: "\<forall>op. \<not> call_fails c op" and ttl: "0 < call_ttl c"
    and small: "length (inserted ar h c) \<le> MAX_CACHE_ENTRIES"
  shows "live_entries (store_step ar h c) (call_now c) = inserted ar h c"
  using store_step_no_faults[OF nf, of ar h] ttl small by (simp add: live_with_ttl)

lemma store_step_bound:
  assumes wf: "wf_hash h" and nf: "\<forall>op. \<not> call_fails c op"
  shows "length (live_entries (store_step ar h c) (call_now c)) \<le> MAX_CACHE_ENTRIES"
proof (cases "0 < call_ttl c")
  case False
  then have "store_step ar h c = empty_hash"
    using store_step_no_faults[OF nf, of ar h] by simp
  then show ?thesis by (simp add: live_entries_empty)
next
  case True
  show ?thesis
  proof (cases "length (inserted ar h c) > MAX_CACHE_ENTRIES")
    case big: True
    then show ?thesis using store_step_evicts(2)[OF wf nf True] by simp
  next
    case False
    then show ?thesis using store_step_keeps[OF nf True, of ar h] by simp
  qed
qed

lemma store_run_bound:
  assumes "wf_hash h" and "i < length calls" and "\<forall>op. \<not> call_fails (calls ! i) op"
  shows "length (live_entries (store_run ar h calls ! i) (call_now (calls ! i)))
           \<le> MAX_CACHE_ENTRIES"
  using assms
proof (induction calls arbitrary: h i)
  case Nil
  then show ?case by simp
next
  case (Cons c cs)
  show ?case
  proof (cases i)
    case 0
    then show ?thesis using Cons.prems store_step_bound[of h c ar] by simp
  next
    case (Suc j)
    then show ?thesis
      using Cons.prems Cons.IH[of "store_step ar h c" j] wf_store_step[of h ar c] by simp
  qed
qed

lemma after_insert_eq:
  "after_insert ar h c =
     (if call_ttl c \<le> 0 then empty_hash
      else \<lparr>hfields = inserted ar h c, expires_at = Some (call_now c + 1000 * call_ttl c)\<rparr>)"
  by (simp add: after_insert_def hset_def expire_def no_faults_def live_hash_update
        inserted_def live_entries_def upsert_not_Nil Let_def)

lemma after_insert_live:
  "live_entries (after_insert ar h c) (call_now c) = (if call_ttl c \<le> 0 then [] else inserted ar h c)"
  by (simp add: after_insert_eq live_entries_empty live_with_ttl)

text \<open>
  Claim C4, as amended. Start from any cache (the fields of a Redis hash have distinct
  names) and take any sequence of calls of \<open>storeInSemanticCache\<close>, one after the other.
  After every call during which no Redis command fails, the cache holds at most
  \<open>MAX_CACHE_ENTRIES\<close> live entries. For one such call: when the insert leaves more live entries than the maximum, exactly the
  maximum remain, all of them among the entries after the insert, and every entry that
  was removed has a timestamp no later than every entry that remains; when it does not,
  the entries after the insert all remain.
\<close>

theorem store_keeps_capacity:
  assumes "wf_hash h"
  shows "(\<forall>i < length calls. (\<forall>op. \<not> call_fails (calls ! i) op) \<longrightarrow>
            length (live_entries (store_run ar h calls ! i) (call_now (calls ! i)))
              \<le> MAX_CACHE_ENTRIES)
       \<and> ((\<forall>op. \<not> call_fails c op)
             \<and> length (live_entries (after_insert ar h c) (call_now c)) > MAX_CACHE_ENTRIES \<longrightarrow>
            length (live_entries (store_step ar h c) (call_now c)) = MAX_CACHE_ENTRIES
            \<and> set (live_entries (store_step ar h c) (call_now c))
                 \<subseteq> set (live_entries (after_insert ar h c) (call_now c))
            \<and> (\<forall>old\<in>set (live_entries (after_insert ar h c) (call_now c)).
                 \<forall>kept\<in>set (live_entries (store_step ar h c) (call_now c)).
                   old \<notin> set (live_entries (store_step ar h c) (call_now c)) \<longrightarrow>
                   timestamp (snd old) \<le> timestamp (snd kept)))
       \<and> ((\<forall>op. \<not> call_fails c op)
             \<and> length (live_entries (after_insert ar h c) (call_now c)) \<le> MAX_CACHE_ENTRIES \<longrightarrow>
            live_entries (store_step ar h c) (call_now c)
              = live_entries (after_insert ar h c) (call_now c))"
proof (intro conjI allI impI)
  fix i assume "i < length calls" "\<forall>op. \<not> call_fails (calls ! i) op"
  then show "length (live_entries (store_run ar h calls ! i) (call_now (calls ! i)))
              \<le> MAX_CACHE_ENTRIES"
    using store_run_bound[OF assms] by blast
next
  assume a: "(\<forall>op. \<not> call_fails c op)
             \<and> length (live_entries (after_insert ar h c) (call_now c)) > MAX_CACHE_ENTRIES"
  then have nf: "\<forall>op. \<not> call_fails c op" by simp
  from a have ttl: "0 < call_ttl c" by (auto simp add: after_insert_live split: if_splits)
  then have after: "live_entries (after_insert ar h c) (call_now c) = inserted ar h c"
    by (simp add: after_insert_live)
  from a have big: "length (inserted ar h c) > MAX_CACHE_ENTRIES" by (simp add: after)
  note ev = store_step_evicts[OF assms nf ttl big]
  show "length (live_entries (store_step ar h c) (call_now c)) = MAX_CACHE_ENTRIES"
    by (rule ev(2))
  show "set (live_entries (store_step ar h c) (call_now c))
          \<subseteq> set (live_entries (after_insert ar h c) (call_now c))"
    unfolding ev(1) after by auto
  show "\<forall>old\<in>set (live_entries (after_insert ar h c) (call_now c)).
                 \<forall>kept\<in>set (live_entries (store_step ar h c) (call_now c)).
                   old \<notin> set (live_entries (store_step ar h c) (call_now c)) \<longrightarrow>
                   timestamp (snd old) \<le> timestamp (snd kept)"
    unfolding ev(1) after
    using evicted_are_oldest[OF inserted_distinct[OF assms, of ar c]] by auto
next
  assume a: "(\<forall>op. \<not> call_fails c op)
             \<and> length (live_entries (after_insert ar h c) (call_now c)) \<le> MAX_CACHE_ENTRIES"
  then have nf: "\<forall>op. \<not> call_fails c op" by simp
  show "live_entries (store_step ar h c) (call_now c)
          = live_entries (after_insert ar h c) (call_now c)"
  proof (cases "0 < call_ttl c")
    case True
    then show ?thesis
      using a store_step_keeps[OF nf True, of ar h] by (simp add: after_insert_live)
  next
    case False
    then have "store_step ar h c = empty_hash"
      using store_step_no_faults[OF nf, of ar h] by simp
    then show ?thesis using False by (simp add: after_insert_live live_entries_empty)
  qed
qed

lemma full_cache_wf: "wf_hash full_cache"
  by (simp add: wf_hash_def full_cache_def comp_def distinct_map inj_on_def)

lemma full_cache_live: "live_entries full_cache now = hfields full_cache"
  by (simp add: live_entries_def live_hash_def expired_def full_cache_def)

lemma new_not_in_full_cache: "''new'' \<notin> fst ` set (hfields full_cache)"
proof
  assume "''new'' \<in> fst ` set (hfields full_cache)"
  then obtain i where "''new'' = replicate i (CHR ''a'')"
    by (auto simp add: full_cache_def)
  then show False by (cases i) simp_all
qed

lemma full_cache_inserted: "length (inserted exact_arith full_cache example_call) = 501"
proof -
  have "inserted exact_arith full_cache example_call
      = hfields full_cache @ [(''new'', new_entry exact_arith example_call)]"
    using upsert_fresh[OF new_not_in_full_cache]
    by (simp add: inserted_def full_cache_live example_call_def)
  then show ?thesis by (simp add: full_cache_def)
qed

theorem store_keeps_capacity_witness:
  "wf_hash full_cache
   \<and> length (live_entries full_cache (call_now example_call)) = 500
   \<and> length (live_entries (after_insert exact_arith full_cache example_call) (call_now example_call)) = 501
   \<and> length (live_entries (store_step exact_arith full_cache example_call) (call_now example_call))
       = MAX_CACHE_ENTRIES
   \<and> length (live_entries (store_run exact_arith full_cache [example_call] ! 0) (call_now example_call))
       \<le> MAX_CACHE_ENTRIES"
proof -
  have nf: "\<forall>op. \<not> call_fails example_call op"
    by (simp add: example_call_def no_faults_def)
  have ttl: "0 < call_ttl example_call" by (simp add: example_call_def)
  have after: "length (live_entries (after_insert exact_arith full_cache example_call)
                         (call_now example_call)) = 501"
    using ttl by (simp add: after_insert_live full_cache_inserted)
  then have big: "length (live_entries (after_insert exact_arith full_cache example_call)
                            (call_now example_call)) > MAX_CACHE_ENTRIES"
    by (simp add: MAX_CACHE_ENTRIES_def)
  have l: "length (live_entries full_cache (call_now example_call)) = 500"
    by (simp add: full_cache_live) (simp add: full_cache_def)
  show ?thesis
    using store_keeps_capacity [OF full_cache_wf, of "[example_call]" exact_arith example_call] nf big l
      after full_cache_wf
    by simp
qed

text \<open>
  A call during which \<open>HDEL\<close> fails, and that leaves more entries than the maximum after
  its insert, returns normally and leaves them all.
\<close>

lemma store_hdel_fails:
  assumes ttl: "0 < ttl"
    and big: "MAX_CACHE_ENTRIES
                < length (upsert uuid
                    (json_roundtrip ar
                       \<lparr>query = q, embedding = e, response = r, timestamp = now\<rparr>)
                    (live_entries h now))"
  shows "storeInSemanticCache ar hdel_fails h now uuid q e r ttl =
           (Inr (),
            \<lparr>hfields = upsert uuid
                 (json_roundtrip ar
                    \<lparr>query = q, embedding = e, response = r, timestamp = now\<rparr>)
                 (live_entries h now),
             expires_at = Some (now + 1000 * ttl)\<rparr>)"
proof -
  let ?es = "upsert uuid
               (json_roundtrip ar \<lparr>query = q, embedding = e, response = r, timestamp = now\<rparr>)
               (live_entries h now)"
  let ?h1 = "(live_hash h now)\<lparr>hfields := ?es\<rparr>"
  let ?h2 = "\<lparr>hfields = ?es, expires_at = Some (now + 1000 * ttl)\<rparr>"
  have set: "hset hdel_fails h now uuid
               (json_roundtrip ar \<lparr>query = q, embedding = e, response = r, timestamp = now\<rparr>)
             = Inr ?h1"
    by (simp add: hset_def hdel_fails_def live_entries_def Let_def)
  have ne: "?es \<noteq> []" by (simp add: upsert_not_Nil)
  have ex: "expire hdel_fails ?h1 now ttl = Inr ?h2"
    using ne ttl by (simp add: expire_def hdel_fails_def live_hash_update Let_def)
  have live2: "live_hash ?h2 now = ?h2"
    using ttl by (simp add: live_hash_def expired_def)
  have len: "hlen hdel_fails ?h2 now = Inr (length ?es)"
    by (simp add: hlen_def hdel_fails_def live2)
  have ev: "evictOldestEntries hdel_fails ?h2 now (int (length ?es) - int MAX_CACHE_ENTRIES)
              = (Inl redis_failure, ?h2)
          \<or> evictOldestEntries hdel_fails ?h2 now (int (length ?es) - int MAX_CACHE_ENTRIES)
              = (Inr (), ?h2)"
    by (simp add: evictOldestEntries_def hgetall_def hdel_def hdel_fails_def Let_def)
  show ?thesis
    using set ex len big ev
    by (auto simp add: storeInSemanticCache_def storeInSemanticCache_try_def)
qed

text \<open>
  The claim as stated, for every call, fails when the deletion fails: a store into a cache
  of 500 live entries returns normally and leaves 501 live entries.
\<close>

theorem store_keeps_capacity_counterexample:
  "length (live_entries full_cache 1000) = 500
   \<and> fst (storeInSemanticCache exact_arith hdel_fails full_cache 1000 ''new''
            ''weather in Paris'' [Num 1, Num 0] ''sunny'' 3600) = Inr ()
   \<and> length (live_entries
               (snd (storeInSemanticCache exact_arith hdel_fails full_cache 1000 ''new''
                       ''weather in Paris'' [Num 1, Num 0] ''sunny'' 3600)) 1000) = 501
   \<and> MAX_CACHE_ENTRIES = 500"
proof -
  let ?new = "json_roundtrip exact_arith
                \<lparr>query = ''weather in Paris'', embedding = [Num 1, Num 0], response = ''sunny'',
                 timestamp = 1000\<rparr>"
  have ins: "upsert ''new'' ?new (live_entries full_cache 1000)
               = hfields full_cache @ [(''new'', ?new)]"
    using upsert_fresh[OF new_not_in_full_cache] by (simp add: full_cache_live)
  have l: "length (hfields full_cache) = 500" by (simp add: full_cache_def)
  have big: "MAX_CACHE_ENTRIES < length (upsert ''new'' ?new (live_entries full_cache 1000))"
    unfolding ins using l by (simp add: MAX_CACHE_ENTRIES_def)
  have ttl: "(0::int) < 3600" by simp
  note st = store_hdel_fails[OF ttl big]
  show ?thesis
    unfolding st ins using l
    by (simp add: live_entries_def live_hash_def expired_def MAX_CACHE_ENTRIES_def)
       (simp add: full_cache_def)
qed


section \<open>Properties of a store followed by a lookup\<close>

subsection \<open>The new entry is the newest\<close>




lemma new_entry_fields:
  "timestamp (new_entry ar c) = call_now c" "response (new_entry ar c) = call_response c"
  "embedding (new_entry ar c) = map (js_json ar) (call_embedding c)"
  by (simp_all add: new_entry_def json_roundtrip_def)




text \<open>Every entry of the full cache has the similarity 0 to the embedding of the call.\<close>

lemma full_cache_similarity:
  "kv \<in> set (hfields full_cache) \<Longrightarrow>
   cosineSimilarity exact_arith [Num 1, Num 0] (embedding (snd kv)) = Num 0"
  by (auto simp add: full_cache_def cosineSimilarity_def exact_arith_def)



text \<open>
  It fails as well for the zero vector, whose similarity with itself is \<open>NaN\<close>, and for a
  TTL of 0, which deletes the hash.
\<close>

lemma store_then_lookup_zero_vector:
  "searchSemanticCache exact_arith no_faults
     (snd (storeInSemanticCache exact_arith no_faults empty_hash 1000 ''new'' ''q''
             [Num 0, Num 0] ''r'' 3600))
     1000 [Num 0, Num 0] (Num 0) = Inr None"
proof -
  have st: "storeInSemanticCache exact_arith no_faults empty_hash 1000 ''new'' ''q''
              [Num 0, Num 0] ''r'' 3600
      = (Inr (),
         \<lparr>hfields = [(''new'', \<lparr>query = ''q'', embedding = [Num 0, Num 0], response = ''r'',
                                 timestamp = 1000\<rparr>)],
          expires_at = Some 3601000\<rparr>)"
    by (simp add: storeInSemanticCache_def storeInSemanticCache_try_def hset_def expire_def
          hlen_def live_hash_def expired_def empty_hash_def no_faults_def
          MAX_CACHE_ENTRIES_def Let_def json_roundtrip_def exact_arith_def)
  show ?thesis
    unfolding st
    by (simp add: searchSemanticCache_def searchSemanticCache_try_def hgetall_def
          live_hash_def expired_def no_faults_def cosineSimilarity_def exact_arith_def)
qed

lemma store_then_lookup_ttl_zero:
  "searchSemanticCache exact_arith no_faults
     (snd (storeInSemanticCache exact_arith no_faults empty_hash 1000 ''new'' ''q''
             [Num 1, Num 0] ''r'' 0))
     1000 [Num 1, Num 0] (Num 1) = Inr None"
proof -
  have st: "storeInSemanticCache exact_arith no_faults empty_hash 1000 ''new'' ''q''
              [Num 1, Num 0] ''r'' 0
      = (Inr (), empty_hash)"
    by (simp add: storeInSemanticCache_def storeInSemanticCache_try_def hset_def expire_def
          hlen_def live_hash_def expired_def empty_hash_def no_faults_def
          MAX_CACHE_ENTRIES_def Let_def)
  show ?thesis
    unfolding st
    by (simp add: searchSemanticCache_def searchSemanticCache_try_def hgetall_def
          live_hash_def expired_def no_faults_def empty_hash_def)
qed

text \<open>
  And it fails when the clock has gone back: the entry just stored is the oldest of a
  full cache, and the eviction of the same call removes it.
\<close>

lemma sort_key_snoc_least:
  "\<forall>x\<in>set xs. f y < f x \<Longrightarrow> sort_key f (xs @ [y]) = y # sort_key f xs"
proof (induction xs)
  case Nil
  then show ?case by simp
next
  case (Cons x xs)
  then have "sort_key f (xs @ [y]) = y # sort_key f xs" by simp
  moreover have "\<not> f x \<le> f y" using Cons.prems by auto
  ultimately show ?case by simp
qed

lemma store_then_lookup_clock_back:
  "length (live_entries (store_step exact_arith full_cache early_call) (call_now early_call))
     = 500
   \<and> searchSemanticCache exact_arith no_faults (store_step exact_arith full_cache early_call)
       (call_now early_call) (call_embedding early_call) (Num (22 / 25)) = Inr None"
proof -
  let ?new = "(''new'', new_entry exact_arith early_call)"
  have nf: "\<forall>op. \<not> call_fails early_call op"
    by (simp add: early_call_def example_call_def no_faults_def)
  have ttl: "0 < call_ttl early_call" by (simp add: early_call_def example_call_def)
  have ins: "inserted exact_arith full_cache early_call = hfields full_cache @ [?new]"
    using upsert_fresh[OF new_not_in_full_cache]
    by (simp add: inserted_def full_cache_live early_call_def example_call_def)
  then have len: "length (inserted exact_arith full_cache early_call) = 501"
    by (simp add: full_cache_def)
  have "stamps (hfields full_cache @ [?new]) = stamps (hfields full_cache) @ [(''new'', - 1)]"
    by (simp add: stamps_def new_entry_fields early_call_def)
  moreover have "\<forall>p\<in>set (stamps (hfields full_cache)). snd (''new'', - 1 :: int) < snd p"
    by (simp add: stamps_def full_cache_def)
  ultimately have "sort_key snd (stamps (hfields full_cache @ [?new]))
      = (''new'', - 1) # sort_key snd (stamps (hfields full_cache))"
    using sort_key_snoc_least[of "stamps (hfields full_cache)" snd "(''new'', - 1)"] by simp
  then have ks: "oldest_keys 1 (inserted exact_arith full_cache early_call) = [''new'']"
    by (simp add: oldest_keys_def ins)
  have "filter (\<lambda>kv. fst kv \<notin> set [''new'']) (hfields full_cache) = hfields full_cache"
    using new_not_in_full_cache by (force simp add: filter_id_conv)
  then have rest: "filter (\<lambda>kv. fst kv \<notin> set (oldest_keys 1 (inserted exact_arith full_cache
                                                             early_call)))
             (inserted exact_arith full_cache early_call) = hfields full_cache"
    unfolding ks unfolding ins by simp
  have live: "live_entries (store_step exact_arith full_cache early_call) (call_now early_call)
      = hfields full_cache"
    using store_step_evicts(1)[OF full_cache_wf nf ttl] len rest
    by (simp add: MAX_CACHE_ENTRIES_def)
  have none: "find (\<lambda>entry. js_ge (cosine exact_arith (call_embedding early_call)
                                      (embedding entry)) (Num (22 / 25)))
                (map snd (hfields full_cache)) = None"
    using full_cache_similarity
    by (auto simp add: find_None_iff early_call_def example_call_def
          cosineSimilarity_cosine[symmetric])
  have read: "\<not> no_faults HGETALL" by (simp add: no_faults_def)
  show ?thesis
    using live none
      searchSemanticCache_find[of no_faults exact_arith "store_step exact_arith full_cache early_call"
        "call_now early_call" "call_embedding early_call" "Num (22 / 25)", OF read]
    by (simp add: full_cache_def)
qed

end
